theory Spec2Isabelle
  imports Complex_Main "HOL-Library.Sublist"
begin

section \<open>Text and characters\<close>

text \<open>
  Python strings are modelled as Isabelle strings (lists of 8-bit characters).  The
  character classes, the case mapping and the whitespace notion below are those of Python 3
  on the ASCII range; characters from 128 on are letters of no case, no digits and no
  whitespace here.  The bullet \<open>U+2022\<close> is its three UTF-8 bytes.
\<close>

definition NL :: char where
  "NL = CHR 0x0A"

definition bullet :: string where
  "bullet = [CHR 0xE2, CHR 0x80, CHR 0xA2]"

definition is_upper :: "char \<Rightarrow> bool" where
  "is_upper c = (65 \<le> (of_char c :: nat) \<and> (of_char c :: nat) \<le> 90)"

definition is_lower :: "char \<Rightarrow> bool" where
  "is_lower c = (97 \<le> (of_char c :: nat) \<and> (of_char c :: nat) \<le> 122)"

definition is_alpha :: "char \<Rightarrow> bool" where
  "is_alpha c = (is_upper c \<or> is_lower c)"

definition is_digit :: "char \<Rightarrow> bool" where
  "is_digit c = (48 \<le> (of_char c :: nat) \<and> (of_char c :: nat) \<le> 57)"

text \<open>\<open>str.isspace\<close>, \<open>str.strip\<close> and the \<open>\s\<close> of \<open>re\<close>: tab, newline, vertical tab,
  form feed, carriage return, the four separators \<open>0x1C\<close> to \<open>0x1F\<close>, and space.\<close>

definition is_space :: "char \<Rightarrow> bool" where
  "is_space c = ((9 \<le> (of_char c :: nat) \<and> (of_char c :: nat) \<le> 13)
     \<or> (28 \<le> (of_char c :: nat) \<and> (of_char c :: nat) \<le> 32))"

text \<open>\<open>\w\<close>: letters, digits and the underscore.\<close>

definition is_word :: "char \<Rightarrow> bool" where
  "is_word c = (is_alpha c \<or> is_digit c \<or> c = CHR ''_'')"

definition lower_char :: "char \<Rightarrow> char" where
  "lower_char c = (if is_upper c then char_of ((of_char c :: nat) + 32) else c)"

definition upper_char :: "char \<Rightarrow> char" where
  "upper_char c = (if is_lower c then char_of ((of_char c :: nat) - 32) else c)"

text \<open>\<open>str.lower\<close>.\<close>

definition lower :: "string \<Rightarrow> string" where
  "lower s = map lower_char s"

text \<open>\<open>str.strip()\<close>.\<close>

definition strip :: "string \<Rightarrow> string" where
  "strip s = rev (dropWhile is_space (rev (dropWhile is_space s)))"

text \<open>Splitting at every character of a class, as \<open>re.split(r'[,;\n]', s)\<close> and
  \<open>s.split('\n')\<close> do: empty pieces are kept, and the empty text gives one empty piece.\<close>

fun split_on :: "(char \<Rightarrow> bool) \<Rightarrow> string \<Rightarrow> string list" where
  "split_on P [] = [[]]"
| "split_on P (c # cs) =
     (if P c then [] # split_on P cs
      else (case split_on P cs of w # ws \<Rightarrow> (c # w) # ws | [] \<Rightarrow> [[c]]))"

text \<open>\<open>s.split()\<close>: the maximal runs of non-whitespace characters.\<close>

definition words_of :: "string \<Rightarrow> string list" where
  "words_of s = filter (\<lambda>w. w \<noteq> []) (split_on is_space s)"

text \<open>\<open>sep.join(xs)\<close>.\<close>

fun join :: "string \<Rightarrow> string list \<Rightarrow> string" where
  "join sep [] = []"
| "join sep [x] = x"
| "join sep (x # y # ys) = x @ sep @ join sep (y # ys)"

text \<open>\<open>s.replace(old, new)\<close>: occurrences are replaced from the left, without overlap.
  For an empty \<open>old\<close> Python puts \<open>new\<close> before every character and at the end.\<close>

function replace :: "string \<Rightarrow> string \<Rightarrow> string \<Rightarrow> string" where
  "replace old new s =
     (if old = [] then new @ concat (map (\<lambda>c. c # new) s)
      else if s = [] then []
      else if prefix old s then new @ replace old new (drop (length old) s)
      else hd s # replace old new (tl s))"
  by pat_completeness auto
termination
  by (relation "measure (\<lambda>(old, new, s). length s)") auto

declare replace.simps [simp del]

text \<open>\<open>int(s)\<close> on a run of decimal digits, and \<open>str(n)\<close> on an integer.\<close>

definition digit_val :: "char \<Rightarrow> nat" where
  "digit_val c = (of_char c :: nat) - 48"

definition int_of_digits :: "string \<Rightarrow> nat" where
  "int_of_digits s = foldl (\<lambda>a c. 10 * a + digit_val c) 0 s"

function str_nat :: "nat \<Rightarrow> string" where
  "str_nat n = (if n < 10 then [char_of (48 + n)] else str_nat (n div 10) @ [char_of (48 + n mod 10)])"
  by pat_completeness auto
termination
  by (relation "measure id") auto

declare str_nat.simps [simp del]

definition str_int :: "int \<Rightarrow> string" where
  "str_int i = (if i < 0 then CHR ''-'' # str_nat (nat (- i)) else str_nat (nat i))"

section \<open>Regular expressions of Python's \<open>re\<close>\<close>

text \<open>
  The patterns of the program use literals, character classes, concatenation, ordered
  alternation, greedy optional parts, greedy and lazy repetition of a single character
  class, numbered groups and the anchors \<open>\Z\<close>, \<open>$\<close> and \<open>\b\<close>.  A matcher state is the
  character before the position (for \<open>\b\<close>), the text still to read, and the groups set so
  far.  \<open>rx_match\<close> gives the states in which a pattern can end, in the order in which the
  backtracking matcher of \<open>re\<close> tries them: its first element is what \<open>re\<close> finds.
\<close>

datatype rx =
    Eps
  | Chr "char \<Rightarrow> bool"
  | Seq rx rx
  | Alt rx rx
  | Opt rx
  | Rep "char \<Rightarrow> bool" nat "nat option"
  | LazyStar "char \<Rightarrow> bool"
  | Grp nat rx
  | EndZ
  | Dollar
  | WordB

type_synonym mstate = "char option \<times> string \<times> (nat \<times> string) list"

text \<open>The states after reading 0, 1, 2, ... characters of the class, as far as it goes.\<close>

fun runs :: "(char \<Rightarrow> bool) \<Rightarrow> mstate \<Rightarrow> mstate list" where
  "runs P (p, [], g) = [(p, [], g)]"
| "runs P (p, c # cs, g) = (p, c # cs, g) # (if P c then runs P (Some c, cs, g) else [])"

definition word_before :: "char option \<Rightarrow> bool" where
  "word_before p = (case p of None \<Rightarrow> False | Some c \<Rightarrow> is_word c)"

definition word_after :: "string \<Rightarrow> bool" where
  "word_after s = (case s of [] \<Rightarrow> False | c # _ \<Rightarrow> is_word c)"

fun rx_match :: "rx \<Rightarrow> mstate \<Rightarrow> mstate list" where
  "rx_match Eps st = [st]"
| "rx_match (Chr P) (p, s, g) =
     (case s of [] \<Rightarrow> [] | c # cs \<Rightarrow> if P c then [(Some c, cs, g)] else [])"
| "rx_match (Seq a b) st = concat (map (rx_match b) (rx_match a st))"
| "rx_match (Alt a b) st = rx_match a st @ rx_match b st"
| "rx_match (Opt a) st = rx_match a st @ [st]"
| "rx_match (Rep P lo hi) st =
     rev (drop lo (case hi of None \<Rightarrow> runs P st | Some h \<Rightarrow> take (Suc h) (runs P st)))"
| "rx_match (LazyStar P) st = runs P st"
| "rx_match (Grp n a) (p, s, g) =
     map (\<lambda>(p', s', g'). (p', s', (n, take (length s - length s') s) # g')) (rx_match a (p, s, g))"
| "rx_match EndZ (p, s, g) = (if s = [] then [(p, s, g)] else [])"
| "rx_match Dollar (p, s, g) = (if s = [] \<or> s = [NL] then [(p, s, g)] else [])"
| "rx_match WordB (p, s, g) = (if word_before p \<noteq> word_after s then [(p, s, g)] else [])"

text \<open>\<open>re.search\<close>: the first position, from the left, at which the pattern matches.
  \<open>search_from\<close> gives the text from that position on and the state in which the match
  ends; \<open>re_search\<close> gives the matched text (group 0) and the groups.\<close>

fun search_from :: "rx \<Rightarrow> char option \<Rightarrow> string \<Rightarrow> (string \<times> mstate) option" where
  "search_from r p [] =
     (case rx_match r (p, [], []) of [] \<Rightarrow> None | st # _ \<Rightarrow> Some ([], st))"
| "search_from r p (c # cs) =
     (case rx_match r (p, c # cs, []) of
        [] \<Rightarrow> search_from r (Some c) cs
      | st # _ \<Rightarrow> Some (c # cs, st))"

definition re_search :: "rx \<Rightarrow> string \<Rightarrow> (string \<times> (nat \<times> string) list) option" where
  "re_search r s =
     (case search_from r None s of
        None \<Rightarrow> None
      | Some (s0, (p', s', g)) \<Rightarrow> Some (take (length s0 - length s') s0, g))"

text \<open>\<open>m.group(n)\<close>, with the empty text for a group that took no part (as \<open>findall\<close>
  reports it).\<close>

definition group :: "(string \<times> (nat \<times> string) list) \<Rightarrow> nat \<Rightarrow> string" where
  "group m n = (case map_of (snd m) n of None \<Rightarrow> [] | Some w \<Rightarrow> w)"

text \<open>Pattern constructors.  With \<open>re.IGNORECASE\<close> a character matches a literal or a class
  when its lower-case or its upper-case form does.\<close>

definition ci :: "(char \<Rightarrow> bool) \<Rightarrow> char \<Rightarrow> bool" where
  "ci P c = (P (lower_char c) \<or> P (upper_char c))"

fun seqs :: "rx list \<Rightarrow> rx" where
  "seqs [] = Eps"
| "seqs [r] = r"
| "seqs (r # rs) = Seq r (seqs rs)"

fun alts :: "rx list \<Rightarrow> rx" where
  "alts [] = Chr (\<lambda>c. False)"
| "alts [r] = r"
| "alts (r # rs) = Alt r (alts rs)"

definition lit :: "string \<Rightarrow> rx" where
  "lit w = seqs (map (\<lambda>x. Chr (\<lambda>c. c = x)) w)"

definition liti :: "string \<Rightarrow> rx" where
  "liti w = seqs (map (\<lambda>x. Chr (ci (\<lambda>c. c = x))) w)"

definition any_char :: "char \<Rightarrow> bool" where
  "any_char c = True"

abbreviation star :: "(char \<Rightarrow> bool) \<Rightarrow> rx" where
  "star P \<equiv> Rep P 0 None"

abbreviation plus :: "(char \<Rightarrow> bool) \<Rightarrow> rx" where
  "plus P \<equiv> Rep P 1 None"

section \<open>Records\<close>

text \<open>The candidate record, as \<open>parse_resume_info\<close> builds it.  Python keeps the skills in a
  set and lists it in an order of its own; here the list follows the vocabulary.\<close>

record candidate =
  name :: "string option"
  email :: "string option"
  phone :: "string option"
  skills :: "string list"
  experience :: "string list"
  education :: "string list"
  raw_text :: string

section \<open>The requirement miner\<close>

text \<open>The dictionary \<open>requirements\<close>, with its keys \<open>skills\<close>, \<open>responsibilities\<close>,
  \<open>experience_years\<close> and \<open>education\<close>.\<close>

record jd_requirements =
  req_skills :: "string list"
  req_responsibilities :: "string list"
  req_experience_years :: nat
  req_education :: "string list"

text \<open>The three section patterns of \<open>_extract_jd_requirements\<close> differ in their header
  synonyms only; what follows the header is
  \<^verbatim>\<open>:?\s*(.*?)(?:\n\n|\n[A-Z][a-zA-Z\s]+:|\Z)\<close> under \<open>re.IGNORECASE | re.DOTALL\<close>.\<close>

definition section_rx :: "rx \<Rightarrow> rx" where
  "section_rx header =
     seqs [header, Opt (liti '':''), star is_space, Grp 1 (LazyStar any_char),
           alts [lit [NL, NL],
                 seqs [lit [NL], Chr (ci is_upper), plus (ci (\<lambda>c. is_alpha c \<or> is_space c)), liti '':''],
                 EndZ]]"

text \<open>\<^verbatim>\<open>(?:(?:required|key)\s+skills|skills|technical\s+qualifications)\<close>\<close>

definition skills_header :: rx where
  "skills_header =
     alts [seqs [alts [liti ''required'', liti ''key''], plus is_space, liti ''skills''],
           liti ''skills'',
           seqs [liti ''technical'', plus is_space, liti ''qualifications'']]"

text \<open>\<^verbatim>\<open>(?:key\s+responsibilities|responsibilities|duties)\<close>\<close>

definition responsibilities_header :: rx where
  "responsibilities_header =
     alts [seqs [liti ''key'', plus is_space, liti ''responsibilities''],
           liti ''responsibilities'',
           liti ''duties'']"

text \<open>\<^verbatim>\<open>(?:education|qualifications|academic\s+background)\<close>\<close>

definition education_header :: rx where
  "education_header =
     alts [liti ''education'',
           liti ''qualifications'',
           seqs [liti ''academic'', plus is_space, liti ''background'']]"

text \<open>\<^verbatim>\<open>(\d+)\s*(?:\+|plus)?\s*(?:years|yrs?)\s+(?:of\s+)?(?:experience|exp)\<close> under
  \<open>re.IGNORECASE\<close>.\<close>

definition jd_experience_rx :: rx where
  "jd_experience_rx =
     seqs [Grp 1 (plus is_digit), star is_space, Opt (alts [liti ''+'', liti ''plus'']),
           star is_space, alts [liti ''years'', seqs [liti ''yr'', Opt (liti ''s'')]],
           plus is_space, Opt (seqs [liti ''of'', plus is_space]),
           alts [liti ''experience'', liti ''exp'']]"

text \<open>The captured text without its bullet characters, stripped:
  \<^verbatim>\<open>m.group(1).replace('*', '').replace('-', '').replace(bullet, '').strip()\<close>.\<close>

definition strip_bullets :: "string \<Rightarrow> string" where
  "strip_bullets t = strip (replace bullet [] (replace ''-'' [] (replace ''*'' [] t)))"

definition is_separator :: "char \<Rightarrow> bool" where
  "is_separator c = (c = CHR '','' \<or> c = CHR '';'' \<or> c = NL)"

text \<open>\<^verbatim>\<open>[s.strip() for s in re.split(r'[,;\n]', text) if s.strip()]\<close>\<close>

definition fragments :: "string \<Rightarrow> string list" where
  "fragments t = map strip (filter (\<lambda>s. strip s \<noteq> []) (split_on is_separator t))"

text \<open>The text that a section pattern captures in its group 1, if the pattern matches.\<close>

definition section_capture :: "rx \<Rightarrow> string \<Rightarrow> string option" where
  "section_capture header jd_lower =
     (case re_search (section_rx header) jd_lower of
        None \<Rightarrow> None
      | Some m \<Rightarrow> Some (group m 1))"

definition mine_section :: "rx \<Rightarrow> string \<Rightarrow> string list" where
  "mine_section header jd_lower =
     (case section_capture header jd_lower of
        None \<Rightarrow> []
      | Some captured \<Rightarrow> fragments (strip_bullets captured))"

definition extract_jd_requirements :: "string \<Rightarrow> jd_requirements" where
  "extract_jd_requirements jd_text =
     (let jd_lower = lower jd_text in
      \<lparr> req_skills = mine_section skills_header jd_lower,
        req_responsibilities = mine_section responsibilities_header jd_lower,
        req_experience_years =
          (case re_search jd_experience_rx jd_lower of
             None \<Rightarrow> 0
           | Some m \<Rightarrow> int_of_digits (group m 1)),
        req_education = mine_section education_header jd_lower \<rparr>)"

section \<open>The scorer\<close>

text \<open>Python's floats are modelled as real numbers: the arithmetic below is exact, and
  \<open>round(x, 2)\<close> rounds the exact value, halves to the even neighbour.\<close>

definition round_half_even :: "real \<Rightarrow> int" where
  "round_half_even x =
     (let f = \<lfloor>x\<rfloor>; d = x - of_int f in
      if d < 1 / 2 then f else if 1 / 2 < d then f + 1 else if even f then f else f + 1)"

definition round2 :: "real \<Rightarrow> real" where
  "round2 x = of_int (round_half_even (x * 100)) / 100"

text \<open>\<open>int(x)\<close> on a float cuts the fraction off, towards zero.\<close>

definition py_int :: "real \<Rightarrow> int" where
  "py_int x = (if 0 \<le> x then \<lfloor>x\<rfloor> else \<lceil>x\<rceil>)"

text \<open>The embedding model enters as \<open>sim a b\<close>, the cosine similarity of the embeddings of the
  texts \<open>a\<close> and \<open>b\<close>.  For a required skill, \<open>cosine_scores[i].max()\<close> is the largest
  similarity to a skill of the resume.\<close>

definition max_sim :: "(string \<Rightarrow> string \<Rightarrow> real) \<Rightarrow> string list \<Rightarrow> string \<Rightarrow> real" where
  "max_sim sim resume_skills jd_skill = Max (set (map (sim jd_skill) resume_skills))"

definition matched_jd_skills :: "(string \<Rightarrow> string \<Rightarrow> real) \<Rightarrow> string list \<Rightarrow> string list \<Rightarrow> nat" where
  "matched_jd_skills sim jd_required_skills resume_skills =
     length (filter (\<lambda>j. 6 / 10 < max_sim sim resume_skills j) jd_required_skills)"

text \<open>Each part gives its sub-score and the sentence it appends to \<open>reasoning_parts\<close>.\<close>

definition skill_part :: "(string \<Rightarrow> string \<Rightarrow> real) \<Rightarrow> string list \<Rightarrow> string list \<Rightarrow> real \<times> string" where
  "skill_part sim jd_required_skills resume_skills =
     (if jd_required_skills \<noteq> [] then
        if resume_skills \<noteq> [] then
          (let m = matched_jd_skills sim jd_required_skills resume_skills;
               skill_match_score = (real m / real (length jd_required_skills)) * 100
           in (skill_match_score,
               ''Matched '' @ str_nat m @ ''/'' @ str_nat (length jd_required_skills)
                 @ '' key skills ('' @ str_int (py_int skill_match_score) @ ''%).''))
        else (0, ''No skills found in resume to match against JD skills.'')
      else (100, ''No specific skills required in JD.''))"

text \<open>\<^verbatim>\<open>(\d+)\s+years\<close> under \<open>re.IGNORECASE\<close>, searched in the joined experience
  fragments.\<close>

definition resume_years_rx :: rx where
  "resume_years_rx = seqs [Grp 1 (plus is_digit), plus is_space, liti ''years'']"

definition experience_years_in_resume :: "candidate \<Rightarrow> nat" where
  "experience_years_in_resume parsed_resume_data =
     (if experience parsed_resume_data \<noteq> [] then
        (case re_search resume_years_rx (join '' '' (experience parsed_resume_data)) of
           None \<Rightarrow> 0
         | Some m \<Rightarrow> int_of_digits (group m 1))
      else 0)"

definition experience_part :: "nat \<Rightarrow> nat \<Rightarrow> real \<times> string" where
  "experience_part jd_min_experience_years years_in_resume =
     (if 0 < jd_min_experience_years then
        if jd_min_experience_years \<le> years_in_resume then
          (100, ''Meets/Exceeds '' @ str_nat jd_min_experience_years @ '' years experience (''
                  @ str_nat years_in_resume @ '' years found).'')
        else
          ((if 0 < jd_min_experience_years
            then (real years_in_resume / real jd_min_experience_years) * 100 else 0),
           ''Has '' @ str_nat years_in_resume @ '' years experience (requires ''
             @ str_nat jd_min_experience_years @ '').'')
      else (100, ''No minimum experience required in JD.''))"

definition responsibility_part :: "(string \<Rightarrow> string \<Rightarrow> real) \<Rightarrow> string list \<Rightarrow> string \<Rightarrow> real \<times> string" where
  "responsibility_part sim jd_responsibilities resume_raw_text =
     (if jd_responsibilities \<noteq> [] \<and> resume_raw_text \<noteq> [] then
        (let responsibility_score = sim (join '' '' jd_responsibilities) resume_raw_text * 100
         in (responsibility_score,
             ''Overall resume content aligns with responsibilities (''
               @ str_int (py_int responsibility_score) @ ''%).''))
      else (50, ''Cannot assess responsibilities due to missing JD or resume content.''))"

text \<open>The loop over the required education terms stops at the first term found in the
  education text.\<close>

fun matched_edu :: "string list \<Rightarrow> string \<Rightarrow> nat" where
  "matched_edu [] resume_education_text = 0"
| "matched_edu (req_edu # rest) resume_education_text =
     (if sublist (lower req_edu) (lower resume_education_text) then 1
      else matched_edu rest resume_education_text)"

definition education_part :: "string list \<Rightarrow> string \<Rightarrow> real \<times> string" where
  "education_part jd_required_education resume_education_text =
     (if jd_required_education \<noteq> [] then
        (let education_score = matched_edu jd_required_education resume_education_text * 100
         in (real education_score,
             ''Education matches JD requirements ('' @ str_nat education_score @ ''%).''))
      else (100, ''No specific education required in JD.''))"

text \<open>The four sub-scores and sentences of \<open>score_resume\<close> for a candidate and mined
  requirements.\<close>

definition skill_result :: "(string \<Rightarrow> string \<Rightarrow> real) \<Rightarrow> candidate \<Rightarrow> jd_requirements \<Rightarrow> real \<times> string" where
  "skill_result sim c jd = skill_part sim (req_skills jd) (skills c)"

definition experience_result :: "candidate \<Rightarrow> jd_requirements \<Rightarrow> real \<times> string" where
  "experience_result c jd = experience_part (req_experience_years jd) (experience_years_in_resume c)"

definition responsibility_result :: "(string \<Rightarrow> string \<Rightarrow> real) \<Rightarrow> candidate \<Rightarrow> jd_requirements \<Rightarrow> real \<times> string" where
  "responsibility_result sim c jd = responsibility_part sim (req_responsibilities jd) (raw_text c)"

definition education_result :: "candidate \<Rightarrow> jd_requirements \<Rightarrow> real \<times> string" where
  "education_result c jd = education_part (req_education jd) (join '' '' (education c))"

definition score_requirements :: "(string \<Rightarrow> string \<Rightarrow> real) \<Rightarrow> candidate \<Rightarrow> jd_requirements \<Rightarrow> real \<times> string" where
  "score_requirements sim c jd =
     (let (skill_match_score, r1) = skill_result sim c jd;
          total_score = 0 + skill_match_score * (40 / 100);
          (experience_score, r2) = experience_result c jd;
          total_score = total_score + experience_score * (30 / 100);
          (responsibility_score, r3) = responsibility_result sim c jd;
          total_score = total_score + responsibility_score * (20 / 100);
          (education_score, r4) = education_result c jd;
          total_score = total_score + education_score * (10 / 100);
          final_score = round2 total_score;
          overall_reasoning = join '' '' [r1, r2, r3, r4]
      in (final_score, overall_reasoning))"


section \<open>The extractor\<close>

text \<open>\<open>load_common_skills\<close> reads the vocabulary file, one phrase a line, into a set of
  stripped, lower-cased phrases; a missing file gives the empty vocabulary.  \<open>KNOWN_SKILLS\<close> is
  that set as a list, sorted by falling length.  The file is not part of the program: its
  lines are a parameter (\<open>None\<close> when the file does not exist).\<close>

definition load_common_skills :: "string list option \<Rightarrow> string list" where
  "load_common_skills file =
     (case file of
        None \<Rightarrow> []
      | Some lines \<Rightarrow> remdups (map (\<lambda>line. lower (strip line)) lines))"

definition KNOWN_SKILLS :: "string list option \<Rightarrow> string list" where
  "KNOWN_SKILLS file = sort_key (\<lambda>s. - int (length s)) (load_common_skills file)"

text \<open>The spec's input-contract error.  \<open>parse_resume_info\<close> has no \<open>raise\<close>: every result
  below is a record.\<close>

datatype error = EmptyInputError

text \<open>The entity recogniser enters as \<open>nlp\<close>: the entities of a text, in document order, each
  with its label and its text.\<close>

type_synonym recogniser = "string \<Rightarrow> (string \<times> string) list"

text \<open>\<^verbatim>\<open>\d{10}\<close>\<close>

definition ten_digits_rx :: rx where
  "ten_digits_rx = Rep is_digit 10 (Some 10)"

text \<open>1. The name: the first \<open>PERSON\<close> entity of two words or more; otherwise the first of the
  first three non-blank lines that has no \<open>@\<close>, no run of ten digits and fewer than five
  words.\<close>

definition name_line_ok :: "string \<Rightarrow> bool" where
  "name_line_ok line =
     (CHR ''@'' \<notin> set line \<and> re_search ten_digits_rx line = None \<and> length (words_of line) < 5)"

definition person_entity :: "string \<times> string \<Rightarrow> bool" where
  "person_entity ent = (fst ent = ''PERSON'' \<and> 2 \<le> length (words_of (snd ent)))"

definition extract_name :: "recogniser \<Rightarrow> string \<Rightarrow> string option" where
  "extract_name nlp resume_text =
     (case find person_entity (nlp resume_text) of
        Some ent \<Rightarrow> Some (snd ent)
      | None \<Rightarrow>
          (let lines = map strip (filter (\<lambda>line. strip line \<noteq> []) (split_on (\<lambda>c. c = NL) resume_text))
           in find name_line_ok (take 3 lines)))"

text \<open>2. Email and phone: the first match of each pattern.
  \<^verbatim>\<open>[a-zA-Z0-9._%+-]+@[a-zA-Z0-9.-]+\.[a-zA-Z]{2,}\<close> and
  \<^verbatim>\<open>(?:\+?(\d{1,3}))?[-. (]*(\d{3})[-. )]*(\d{3})[-. ]*(\d{4})(?: *x(\d+))?\<close>,
  both without flags.\<close>

definition email_rx :: rx where
  "email_rx =
     seqs [plus (\<lambda>c. is_alpha c \<or> is_digit c \<or> c \<in> set ''._%+-''),
           lit ''@'',
           plus (\<lambda>c. is_alpha c \<or> is_digit c \<or> c \<in> set ''.-''),
           lit ''.'',
           Rep is_alpha 2 None]"

definition phone_rx :: rx where
  "phone_rx =
     seqs [Opt (seqs [Opt (lit ''+''), Grp 1 (Rep is_digit 1 (Some 3))]),
           star (\<lambda>c. c \<in> set ''-. (''),
           Grp 2 (Rep is_digit 3 (Some 3)),
           star (\<lambda>c. c \<in> set ''-. )''),
           Grp 3 (Rep is_digit 3 (Some 3)),
           star (\<lambda>c. c \<in> set ''-. ''),
           Grp 4 (Rep is_digit 4 (Some 4)),
           Opt (seqs [star (\<lambda>c. c = CHR '' ''), lit ''x'', Grp 5 (plus is_digit)])]"

definition extract_email :: "string \<Rightarrow> string option" where
  "extract_email resume_text =
     (case re_search email_rx resume_text of None \<Rightarrow> None | Some m \<Rightarrow> Some (fst m))"

definition extract_phone :: "string \<Rightarrow> string option" where
  "extract_phone resume_text =
     (case re_search phone_rx resume_text of
        None \<Rightarrow> None
      | Some m \<Rightarrow> Some (group m 1 @ group m 2 @ group m 3 @ group m 4 @ group m 5))"

text \<open>3. The skills: every vocabulary entry whose lower-cased form occurs in the lower-cased
  text, collected in a set.\<close>

definition extract_skills :: "string list \<Rightarrow> string \<Rightarrow> string list" where
  "extract_skills known_skills resume_text =
     remdups (filter (\<lambda>skill. sublist (lower skill) (lower resume_text)) known_skills)"

text \<open>4. The experience: \<open>experience_section\<close> is computed and never used; the record gets
  one fragment from
  \<^verbatim>\<open>(\d+)\s*(?:years|yrs?)\s+(?:of)?\s*(?:experience|exp|background)\<close> under
  \<open>re.IGNORECASE\<close> on the lower-cased text.\<close>

definition years_experience_rx :: rx where
  "years_experience_rx =
     seqs [Grp 1 (plus is_digit), star is_space,
           alts [liti ''years'', seqs [liti ''yr'', Opt (liti ''s'')]],
           plus is_space, Opt (liti ''of''), star is_space,
           alts [liti ''experience'', liti ''exp'', liti ''background'']]"

definition extract_experience :: "string \<Rightarrow> string list" where
  "extract_experience resume_text =
     (case re_search years_experience_rx (lower resume_text) of
        None \<Rightarrow> []
      | Some m \<Rightarrow> [group m 1 @ '' years experience''])"

text \<open>5. The education: for the first keyword that occurs in the lower-cased text and whose
  section pattern \<^verbatim>\<open>(?:keyword)\s*(.*?)(\n\n|$)\<close> (\<open>re.IGNORECASE | re.DOTALL\<close>)
  matches, the matched text is searched for a degree, an institution and a year.\<close>

definition keyword_section_rx :: "string \<Rightarrow> rx" where
  "keyword_section_rx keyword =
     seqs [liti keyword, star is_space, Grp 1 (LazyStar any_char), Grp 2 (alts [lit [NL, NL], Dollar])]"

text \<open>\<^verbatim>\<open>(?:b\.?\s?s|m\.?\s?s|b\.?\s?a|ph\.?\s?d|bachelor|master|doctor|eng\.)[^.\n]*?(?:in|of)\s+([a-zA-Z\s]+)\<close>
  under \<open>re.IGNORECASE\<close>.\<close>

definition degree_rx :: rx where
  "degree_rx =
     seqs [alts [seqs [liti ''b'', Opt (lit ''.''), Opt (Chr is_space), liti ''s''],
                 seqs [liti ''m'', Opt (lit ''.''), Opt (Chr is_space), liti ''s''],
                 seqs [liti ''b'', Opt (lit ''.''), Opt (Chr is_space), liti ''a''],
                 seqs [liti ''ph'', Opt (lit ''.''), Opt (Chr is_space), liti ''d''],
                 liti ''bachelor'', liti ''master'', liti ''doctor'',
                 seqs [liti ''eng'', lit ''.'']],
           LazyStar (\<lambda>c. c \<noteq> CHR ''.'' \<and> c \<noteq> NL),
           alts [liti ''in'', liti ''of''],
           plus is_space,
           Grp 1 (plus (ci (\<lambda>c. is_alpha c \<or> is_space c)))]"

text \<open>\<^verbatim>\<open>(?:university|institute|college|school)\s+of\s+([a-zA-Z\s]+)|([a-zA-Z\s]+(?:university|institute|college))\<close>
  under \<open>re.IGNORECASE\<close>.\<close>

definition university_rx :: rx where
  "university_rx =
     Alt (seqs [alts [liti ''university'', liti ''institute'', liti ''college'', liti ''school''],
                plus is_space, liti ''of'', plus is_space,
                Grp 1 (plus (ci (\<lambda>c. is_alpha c \<or> is_space c)))])
         (Grp 2 (seqs [plus (ci (\<lambda>c. is_alpha c \<or> is_space c)),
                       alts [liti ''university'', liti ''institute'', liti ''college'']]))"

text \<open>\<^verbatim>\<open>\b(?:19|20)\d{2}\b\<close>\<close>

definition year_rx :: rx where
  "year_rx = seqs [WordB, alts [lit ''19'', lit ''20''], Rep is_digit 2 (Some 2), WordB]"

definition education_fragments :: "string \<Rightarrow> string list" where
  "education_fragments education_section_text =
     (case re_search degree_rx education_section_text of
        None \<Rightarrow> []
      | Some m \<Rightarrow> [''Degree: '' @ strip (group m 1)])
     @ (case re_search university_rx education_section_text of
        None \<Rightarrow> []
      | Some m \<Rightarrow> [''University: '' @ strip (if group m 1 \<noteq> [] then group m 1 else group m 2)])
     @ (case re_search year_rx education_section_text of
        None \<Rightarrow> []
      | Some m \<Rightarrow> [''Year: '' @ fst m])"

fun education_loop :: "string list \<Rightarrow> string \<Rightarrow> string list" where
  "education_loop [] text_lower = []"
| "education_loop (keyword # rest) text_lower =
     (if sublist keyword text_lower then
        (case re_search (keyword_section_rx keyword) text_lower of
           Some m \<Rightarrow> education_fragments (fst m)
         | None \<Rightarrow> education_loop rest text_lower)
      else education_loop rest text_lower)"

definition education_keywords :: "string list" where
  "education_keywords = [''education'', ''academic background'', ''qualifications'']"

definition extract_education :: "string \<Rightarrow> string list" where
  "extract_education resume_text = education_loop education_keywords (lower resume_text)"

definition parse_resume_info :: "recogniser \<Rightarrow> string list \<Rightarrow> string \<Rightarrow> error + candidate" where
  "parse_resume_info nlp known_skills resume_text =
     Inr \<lparr> name = extract_name nlp resume_text,
           email = extract_email resume_text,
           phone = extract_phone resume_text,
           skills = extract_skills known_skills resume_text,
           experience = extract_experience resume_text,
           education = extract_education resume_text,
           raw_text = resume_text \<rparr>"

section \<open>What a section pattern captures\<close>

text \<open>The text after the header: an optional colon and then all whitespace are skipped
  (\<^verbatim>\<open>:?\s*\<close>).\<close>

definition section_body :: "string \<Rightarrow> string" where
  "section_body s =
     dropWhile is_space (case s of [] \<Rightarrow> [] | c # cs \<Rightarrow> if c = CHR '':'' then cs else c # cs)"

text \<open>The pattern's second way to end the capture, \<^verbatim>\<open>\n[A-Z][a-zA-Z\s]+:\<close> under
  \<open>re.IGNORECASE\<close>, read at the start of a text: a line break, a letter, one or more letters
  or whitespace characters (line breaks are whitespace), a colon.\<close>

definition heading_char :: "char \<Rightarrow> bool" where
  "heading_char c = ci (\<lambda>c. is_alpha c \<or> is_space c) c"

definition heading_at :: "string \<Rightarrow> bool" where
  "heading_at s =
     (case s of
        n # c # x # rest \<Rightarrow>
          n = NL \<and> ci is_upper c \<and> heading_char x
          \<and> (case dropWhile heading_char rest of [] \<Rightarrow> False | d # _ \<Rightarrow> d = CHR '':'')
      | _ \<Rightarrow> False)"

definition terminator_at :: "string \<Rightarrow> bool" where
  "terminator_at s = (take 2 s = [NL, NL] \<or> heading_at s \<or> s = [])"

text \<open>The lazy \<^verbatim>\<open>(.*?)\<close>: the shortest text after which the pattern can end.\<close>

fun capture_upto :: "string \<Rightarrow> string" where
  "capture_upto [] = []"
| "capture_upto (c # cs) = (if terminator_at (c # cs) then [] else c # capture_upto cs)"

section \<open>The requirement miner in the words of the specification\<close>

text \<open>Following the spec's words: the section text runs from the matched header synonym up
  to the first of the next blank line, the next title-cased heading line (a line that starts
  with a capital letter and runs in letters and blanks up to a colon) and the end of the
  text; the bullet characters are stripped and the text is split at commas, semicolons and
  line breaks into trimmed, non-empty fragments.  The colon and the whitespace after the
  header are skipped and the fragments are lower-cased, as the program does.\<close>

text \<open>A letter or a blank inside a line.\<close>

definition inline_char :: "char \<Rightarrow> bool" where
  "inline_char c = (is_alpha c \<or> (is_space c \<and> c \<noteq> NL))"

definition title_heading_at :: "string \<Rightarrow> bool" where
  "title_heading_at s =
     (case s of
        n # c # rest \<Rightarrow>
          n = NL \<and> is_upper c
          \<and> (case dropWhile inline_char rest of [] \<Rightarrow> False | d # _ \<Rightarrow> d = CHR '':'')
      | _ \<Rightarrow> False)"

definition spec_end_at :: "string \<Rightarrow> bool" where
  "spec_end_at s = (take 2 s = [NL, NL] \<or> title_heading_at s \<or> s = [])"

fun spec_section_text :: "string \<Rightarrow> string" where
  "spec_section_text [] = []"
| "spec_section_text (c # cs) = (if spec_end_at (c # cs) then [] else c # spec_section_text cs)"

definition spec_mine_section :: "rx \<Rightarrow> string \<Rightarrow> string list" where
  "spec_mine_section header jd_text =
     (case search_from header None jd_text of
        None \<Rightarrow> []
      | Some (s0, (p, s, g)) \<Rightarrow>
          fragments (strip_bullets (lower (spec_section_text (section_body s)))))"

section \<open>The parts of a section pattern\<close>

text \<open>The end of a section pattern, \<^verbatim>\<open>(?:\n\n|\n[A-Z][a-zA-Z\s]+:|\Z)\<close>, and all that
  follows the header; named for the proofs.\<close>

definition section_end_rx :: rx where
  "section_end_rx =
     alts [lit [NL, NL],
           seqs [lit [NL], Chr (ci is_upper), plus (ci (\<lambda>c. is_alpha c \<or> is_space c)), liti '':''],
           EndZ]"

definition section_tail_rx :: rx where
  "section_tail_rx =
     seqs [Opt (liti '':''), star is_space, Grp 1 (LazyStar any_char), section_end_rx]"

fun has_group :: "rx \<Rightarrow> bool" where
  "has_group (Seq a b) = (has_group a \<or> has_group b)"
| "has_group (Alt a b) = (has_group a \<or> has_group b)"
| "has_group (Opt a) = has_group a"
| "has_group (Grp n a) = True"
| "has_group _ = False"

text \<open>A class character comes next; used in the proofs.\<close>

definition chr_ok :: "(char \<Rightarrow> bool) \<Rightarrow> mstate \<Rightarrow> bool" where
  "chr_ok Q st = (rx_match (Chr Q) st \<noteq> [])"

section \<open>Patterns that need a visible character\<close>

text \<open>A syntactic check, used in the proofs only: every match of the pattern reads at least
  one character that is not whitespace.\<close>

fun needs_nonspace :: "rx \<Rightarrow> bool" where
  "needs_nonspace Eps = False"
| "needs_nonspace (Chr P) = (\<forall>c. P c \<longrightarrow> \<not> is_space c)"
| "needs_nonspace (Seq a b) = (needs_nonspace a \<or> needs_nonspace b)"
| "needs_nonspace (Alt a b) = (needs_nonspace a \<and> needs_nonspace b)"
| "needs_nonspace (Opt a) = False"
| "needs_nonspace (Rep P lo hi) = (0 < lo \<and> (\<forall>c. P c \<longrightarrow> \<not> is_space c))"
| "needs_nonspace (LazyStar P) = False"
| "needs_nonspace (Grp n a) = needs_nonspace a"
| "needs_nonspace EndZ = False"
| "needs_nonspace Dollar = False"
| "needs_nonspace WordB = False"

section \<open>Example inputs\<close>

definition sim_eq :: "string \<Rightarrow> string \<Rightarrow> real" where
  "sim_eq a b = (if a = b then 1 else 0)"

definition cand_a :: candidate where
  "cand_a = \<lparr> name = Some ''jane roe'', email = None, phone = None,
      skills = [''python'', ''sql''], experience = [''5 years experience''],
      education = [''Degree: computer science''], raw_text = ''jane roe python sql'' \<rparr>"

definition cand_blank :: candidate where
  "cand_blank = \<lparr> name = None, email = None, phone = None,
      skills = [], experience = [], education = [], raw_text = [] \<rparr>"

definition reqs_a :: jd_requirements where
  "reqs_a = \<lparr> req_skills = [''python'', ''aws''], req_responsibilities = [''build services''],
      req_experience_years = 8, req_education = [''Computer''] \<rparr>"

definition reqs_none :: jd_requirements where
  "reqs_none = \<lparr> req_skills = [], req_responsibilities = [],
      req_experience_years = 0, req_education = [] \<rparr>"

definition nlp_none :: recogniser where
  "nlp_none t = []"

definition vocab_file :: "string list option" where
  "vocab_file = Some [''Python '' @ [NL], ''machine learning'' @ [NL], ''Learning'' @ [NL], ''go'' @ [NL]]"

definition resume_a :: string where
  "resume_a = ''Ann Lee'' @ [NL] @ ''I know PYTHON and Machine Learning.''"

definition parsed_a :: candidate where
  "parsed_a = \<lparr> name = Some ''Ann Lee'', email = None, phone = None,
      skills = [''machine learning'', ''learning'', ''python''], experience = [],
      education = [], raw_text = resume_a \<rparr>"

definition blank_text :: string where
  "blank_text = [CHR '' '', NL, CHR 0x09]"

definition hollow :: "string \<Rightarrow> candidate" where
  "hollow t = \<lparr> name = None, email = None, phone = None,
      skills = [], experience = [], education = [], raw_text = t \<rparr>"

definition jd_text_b :: string where
  "jd_text_b = ''Skills:'' @ [NL] @ ''Python'' @ [NL] @ ''Java'' @ [NL] @ ''Education: BSc''"

definition jd_text_d :: string where
  "jd_text_d = ''Skills:'' @ [NL] @ ''Python'' @ [NL] @ ''Java'' @ [NL, NL]
     @ ''Key Responsibilities:'' @ [NL] @ ''- build''"

definition jd_text_a :: string where
  "jd_text_a = ''Skills: SQL, aws, go 7 Years exp''"

section \<open>Properties of the scorer\<close>

lemma score_requirements_eq:
  "score_requirements sim c jd =
     (round2 (fst (skill_result sim c jd) * (40 / 100) + fst (experience_result c jd) * (30 / 100)
        + fst (responsibility_result sim c jd) * (20 / 100) + fst (education_result c jd) * (10 / 100)),
      snd (skill_result sim c jd) @ '' '' @ snd (experience_result c jd) @ '' ''
        @ snd (responsibility_result sim c jd) @ '' '' @ snd (education_result c jd))"
  by (simp add: score_requirements_def Let_def case_prod_beta)

lemma reasoning_contains:
  "sublist (snd (skill_result sim c jd)) (snd (score_requirements sim c jd))"
  "sublist (snd (experience_result c jd)) (snd (score_requirements sim c jd))"
  "sublist (snd (responsibility_result sim c jd)) (snd (score_requirements sim c jd))"
  "sublist (snd (education_result c jd)) (snd (score_requirements sim c jd))"
proof -
  let ?a = "snd (skill_result sim c jd)" and ?b = "snd (experience_result c jd)"
  let ?c = "snd (responsibility_result sim c jd)" and ?d = "snd (education_result c jd)"
  have e: "snd (score_requirements sim c jd) = ?a @ '' '' @ ?b @ '' '' @ ?c @ '' '' @ ?d"
    by (simp add: score_requirements_eq)
  show "sublist ?a (snd (score_requirements sim c jd))"
    unfolding e by (rule sublist_append_rightI)
  have "sublist ?b ((?a @ '' '') @ ?b @ ('' '' @ ?c @ '' '' @ ?d))"
    by (rule sublist_appendI)
  then show "sublist ?b (snd (score_requirements sim c jd))"
    unfolding e by simp
  have "sublist ?c ((?a @ '' '' @ ?b @ '' '') @ ?c @ ('' '' @ ?d))"
    by (rule sublist_appendI)
  then show "sublist ?c (snd (score_requirements sim c jd))"
    unfolding e by simp
  have "sublist ?d ((?a @ '' '' @ ?b @ '' '' @ ?c @ '' '') @ ?d)"
    by (rule sublist_append_leftI)
  then show "sublist ?d (snd (score_requirements sim c jd))"
    unfolding e by simp
qed



lemma matched_edu_iff:
  "matched_edu reqs t = (if \<exists>r \<in> set reqs. sublist (lower r) (lower t) then 1 else 0)"
  by (induction reqs) auto

lemma extract_jd_text_a:
  "extract_jd_requirements jd_text_a =
     \<lparr> req_skills = [''sql'', ''aws'', ''go 7 years exp''], req_responsibilities = [],
       req_experience_years = 7, req_education = [] \<rparr>"
  by code_simp

lemma years_cand_a: "experience_years_in_resume cand_a = 5"
  by code_simp



text \<open>
  C4.  With no required education term the education sub-score is 100 and the reasoning
  contains the sentence "No specific education required in JD."; with required terms it is
  100 exactly when some term, lower-cased, occurs in the lower-cased, space-joined education
  fragments of the candidate, and 0 otherwise.
\<close>

theorem education_sub_score:
  "(req_education jd = [] \<longrightarrow>
      fst (education_result c jd) = 100
      \<and> sublist ''No specific education required in JD.'' (snd (score_requirements sim c jd)))
   \<and> (req_education jd \<noteq> [] \<longrightarrow>
      fst (education_result c jd) =
        (if \<exists>term \<in> set (req_education jd). sublist (lower term) (lower (join '' '' (education c)))
         then 100 else 0))"
proof (intro conjI impI)
  assume e: "req_education jd = []"
  then show "fst (education_result c jd) = 100"
    by (simp add: education_result_def education_part_def)
  from e have "snd (education_result c jd) = ''No specific education required in JD.''"
    by (simp add: education_result_def education_part_def)
  with reasoning_contains(4) [of c jd sim]
  show "sublist ''No specific education required in JD.'' (snd (score_requirements sim c jd))"
    by simp
next
  assume "req_education jd \<noteq> []"
  then show "fst (education_result c jd) =
        (if \<exists>term \<in> set (req_education jd). sublist (lower term) (lower (join '' '' (education c)))
         then 100 else 0)"
    by (simp add: education_result_def education_part_def Let_def matched_edu_iff)
qed

theorem education_sub_score_witness:
  "req_education reqs_none = []
   \<and> fst (education_result cand_a reqs_none) = 100
   \<and> sublist ''No specific education required in JD.'' (snd (score_requirements sim_eq cand_a reqs_none))
   \<and> req_education reqs_a \<noteq> []
   \<and> (\<exists>term \<in> set (req_education reqs_a). sublist (lower term) (lower (join '' '' (education cand_a))))
   \<and> fst (education_result cand_a reqs_a) = 100
   \<and> \<not> (\<exists>term \<in> set (req_education reqs_a). sublist (lower term) (lower (join '' '' (education cand_blank))))
   \<and> fst (education_result cand_blank reqs_a) = 0"
proof -
  have h1: "req_education reqs_none = []"
    by (simp add: reqs_none_def)
  have h2: "req_education reqs_a \<noteq> []"
    by (simp add: reqs_a_def)
  have h3: "\<exists>term \<in> set (req_education reqs_a). sublist (lower term) (lower (join '' '' (education cand_a)))"
    by code_simp
  have h4: "\<not> (\<exists>term \<in> set (req_education reqs_a). sublist (lower term) (lower (join '' '' (education cand_blank))))"
    by code_simp
  show ?thesis
    using education_sub_score [of reqs_none cand_a sim_eq] education_sub_score [of reqs_a cand_a sim_eq]
      education_sub_score [of reqs_a cand_blank sim_eq] h1 h2 h3 h4
    by simp
qed

text \<open>
  C5.  The experience sub-score is 100 when the job's minimum is 0, 100 when the candidate's
  parsed years reach the minimum, and 100 * years / minimum otherwise.
\<close>

theorem experience_sub_score:
  "fst (experience_result c jd) =
     (if req_experience_years jd = 0 then 100
      else if req_experience_years jd \<le> experience_years_in_resume c then 100
      else 100 * real (experience_years_in_resume c) / real (req_experience_years jd))"
  by (simp add: experience_result_def experience_part_def)

theorem experience_sub_score_witness:
  "fst (experience_result cand_a reqs_none) = 100
   \<and> fst (experience_result cand_a reqs_a) = 62.5
   \<and> fst (experience_result cand_blank reqs_a) = 0
   \<and> fst (experience_result cand_a (reqs_a\<lparr>req_experience_years := 5\<rparr>)) = 100"
proof -
  have y0: "experience_years_in_resume cand_blank = 0"
    by (simp add: experience_years_in_resume_def cand_blank_def)
  show ?thesis
    using experience_sub_score [of cand_a reqs_none] experience_sub_score [of cand_a reqs_a]
      experience_sub_score [of cand_blank reqs_a]
      experience_sub_score [of cand_a "reqs_a\<lparr>req_experience_years := 5\<rparr>"]
    by (simp add: years_cand_a y0 reqs_a_def reqs_none_def)
qed

text \<open>
  C6.  When the mined requirements list no skill, the skill sub-score is 100 for every
  candidate record, one without skills included, and the reasoning says that no skills are
  required.
\<close>

theorem no_required_skills_full_score:
  "req_skills jd = [] \<Longrightarrow>
     fst (skill_result sim c jd) = 100
     \<and> snd (skill_result sim c jd) = ''No specific skills required in JD.''
     \<and> sublist ''No specific skills required in JD.'' (snd (score_requirements sim c jd))"
  using reasoning_contains(1) [of sim c jd]
  by (simp add: skill_result_def skill_part_def)

theorem no_required_skills_full_score_witness:
  "req_skills reqs_none = [] \<and> skills cand_blank = []
   \<and> fst (skill_result sim_eq cand_blank reqs_none) = 100
   \<and> sublist ''No specific skills required in JD.'' (snd (score_requirements sim_eq cand_blank reqs_none))
   \<and> fst (skill_result sim_eq cand_a reqs_none) = 100"
proof -
  have h: "req_skills reqs_none = []"
    by (simp add: reqs_none_def)
  show ?thesis
    using no_required_skills_full_score [OF h, of sim_eq cand_blank]
      no_required_skills_full_score [OF h, of sim_eq cand_a] h
    by (simp add: cand_blank_def)
qed

text \<open>
  C7.  When the job lists no responsibilities or the candidate record has no raw text, the
  responsibility sub-score is 50 and the reasoning says that the responsibilities cannot be
  assessed for missing content.
\<close>

theorem responsibility_neutral:
  "req_responsibilities jd = [] \<or> raw_text c = [] \<Longrightarrow>
     fst (responsibility_result sim c jd) = 50
     \<and> snd (responsibility_result sim c jd)
         = ''Cannot assess responsibilities due to missing JD or resume content.''
     \<and> sublist ''Cannot assess responsibilities due to missing JD or resume content.''
         (snd (score_requirements sim c jd))"
  using reasoning_contains(3) [of sim c jd]
  by (auto simp add: responsibility_result_def responsibility_part_def)

theorem responsibility_neutral_witness:
  "req_responsibilities reqs_none = [] \<and> raw_text cand_a \<noteq> []
   \<and> fst (responsibility_result sim_eq cand_a reqs_none) = 50
   \<and> req_responsibilities reqs_a \<noteq> [] \<and> raw_text cand_blank = []
   \<and> fst (responsibility_result sim_eq cand_blank reqs_a) = 50
   \<and> sublist ''Cannot assess responsibilities due to missing JD or resume content.''
         (snd (score_requirements sim_eq cand_blank reqs_a))"
proof -
  have h1: "req_responsibilities reqs_none = [] \<or> raw_text cand_a = []"
    by (simp add: reqs_none_def)
  have h2: "req_responsibilities reqs_a = [] \<or> raw_text cand_blank = []"
    by (simp add: cand_blank_def)
  show ?thesis
    using responsibility_neutral [OF h1, of sim_eq] responsibility_neutral [OF h2, of sim_eq]
    by (simp add: reqs_none_def reqs_a_def cand_a_def cand_blank_def)
qed

text \<open>
  C8.  For a fixed minimum m > 0 the experience sub-score does not decrease when the
  candidate's parsed years n grow, and it is 100 for every n from m on.
\<close>

theorem experience_monotone:
  assumes "0 < m"
  shows "(n \<le> n' \<longrightarrow> fst (experience_part m n) \<le> fst (experience_part m n'))
         \<and> (m \<le> n \<longrightarrow> fst (experience_part m n) = 100)"
  using assms
  by (auto simp add: experience_part_def divide_le_eq divide_right_mono)

theorem experience_monotone_witness:
  "(0::nat) < 8 \<and> (5::nat) \<le> 6 \<and> fst (experience_part 8 5) \<le> fst (experience_part 8 6)
   \<and> (8::nat) \<le> 9 \<and> fst (experience_part 8 9) = 100
   \<and> fst (experience_part 8 5) = 62.5 \<and> fst (experience_part 8 6) = 75"
proof -
  have h: "(0::nat) < 8" by simp
  show ?thesis
    using experience_monotone [OF h, of 5 6] experience_monotone [OF h, of 9 9]
    by (simp add: experience_part_def)
qed

section \<open>Properties of the matcher and of the extractor\<close>

lemma runs_suffix:
  "(p', s', g') \<in> set (runs P (p, s, g)) \<Longrightarrow> suffix s' s \<and> g' = g"
  by (induction s arbitrary: p) (auto simp: suffix_Cons split: if_splits)

lemma sublist_of_suffix: "sublist w s1 \<Longrightarrow> suffix s1 s \<Longrightarrow> sublist w s"
  by (auto simp: sublist_def suffix_def) (metis append.assoc)

text \<open>Matching only moves forward in the text, and every group it sets is a piece of the
  text it started from.\<close>

lemma rx_match_inv:
  "(p', s', g') \<in> set (rx_match r (p, s, g)) \<Longrightarrow>
     suffix s' s \<and> (\<forall>n w. (n, w) \<in> set g' \<longrightarrow> (n, w) \<in> set g \<or> sublist w s)"
proof (induction r arbitrary: p s g p' s' g')
  case (Seq a b)
  from Seq.prems obtain p1 s1 g1 where
    1: "(p1, s1, g1) \<in> set (rx_match a (p, s, g))" and 2: "(p', s', g') \<in> set (rx_match b (p1, s1, g1))"
    by auto
  from Seq.IH(1)[OF 1] have a1: "suffix s1 s" and a2: "\<forall>n w. (n, w) \<in> set g1 \<longrightarrow> (n, w) \<in> set g \<or> sublist w s"
    by blast+
  from Seq.IH(2)[OF 2] have b1: "suffix s' s1" and b2: "\<forall>n w. (n, w) \<in> set g' \<longrightarrow> (n, w) \<in> set g1 \<or> sublist w s1"
    by blast+
  have "suffix s' s" using a1 b1 by (rule suffix_order.trans[rotated])
  moreover have "(n, w) \<in> set g \<or> sublist w s" if "(n, w) \<in> set g'" for n w
  proof -
    from b2 that have "(n, w) \<in> set g1 \<or> sublist w s1" by blast
    then show ?thesis
    proof
      assume "(n, w) \<in> set g1"
      with a2 show ?thesis by blast
    next
      assume "sublist w s1"
      with a1 show ?thesis by (blast intro: sublist_of_suffix)
    qed
  qed
  ultimately show ?case by blast
next
  case (Alt a b)
  from Alt.prems have "(p', s', g') \<in> set (rx_match a (p, s, g)) \<or> (p', s', g') \<in> set (rx_match b (p, s, g))"
    by auto
  then show ?case
  proof
    assume "(p', s', g') \<in> set (rx_match a (p, s, g))"
    then show ?thesis by (rule Alt.IH(1))
  next
    assume "(p', s', g') \<in> set (rx_match b (p, s, g))"
    then show ?thesis by (rule Alt.IH(2))
  qed
next
  case (Opt a)
  from Opt.prems have "(p', s', g') \<in> set (rx_match a (p, s, g)) \<or> (p', s', g') = (p, s, g)"
    by auto
  then show ?case
  proof
    assume "(p', s', g') \<in> set (rx_match a (p, s, g))"
    then show ?thesis by (rule Opt.IH)
  next
    assume "(p', s', g') = (p, s, g)"
    then show ?thesis by auto
  qed
next
  case (Rep P lo hi)
  then have "(p', s', g') \<in> set (runs P (p, s, g))"
    by (auto split: option.splits dest: in_set_dropD in_set_takeD)
  from runs_suffix[OF this] show ?case by auto
next
  case (LazyStar P)
  then have "(p', s', g') \<in> set (runs P (p, s, g))" by simp
  from runs_suffix[OF this] show ?case by auto
next
  case (Grp n a)
  from Grp.prems obtain g1 where
    1: "(p', s', g1) \<in> set (rx_match a (p, s, g))" and 2: "g' = (n, take (length s - length s') s) # g1"
    by auto
  have "sublist (take (length s - length s') s) s"
    by (rule prefix_imp_sublist) (rule take_is_prefix)
  with Grp.IH[OF 1] 2 show ?case by auto
next
  case (Chr P)
  then show ?case by (auto simp: suffix_Cons split: list.splits if_splits)
qed (auto split: if_splits)

lemma rx_match_blank:
  "needs_nonspace r \<Longrightarrow> \<forall>c \<in> set s. is_space c \<Longrightarrow> rx_match r (p, s, g) = []"
proof (induction r arbitrary: p s g)
  case (Seq a b)
  show ?case
  proof (cases "needs_nonspace a")
    case True
    with Seq show ?thesis by simp
  next
    case False
    with Seq.prems have nb: "needs_nonspace b" by simp
    have "rx_match b st = []" if "st \<in> set (rx_match a (p, s, g))" for st
    proof -
      obtain p1 s1 g1 where st: "st = (p1, s1, g1)" by (cases st)
      with that rx_match_inv have "suffix s1 s" by blast
      then have "\<forall>c \<in> set s1. is_space c"
        using Seq.prems(2) by (auto dest: set_mono_suffix)
      with Seq.IH(2)[OF nb] st show ?thesis by simp
    qed
    then show ?thesis by (simp add: concat_eq_Nil_conv)
  qed
next
  case (Rep P lo hi)
  then have "runs P (p, s, g) = [(p, s, g)]"
    by (cases s) auto
  with Rep show ?case by (auto split: option.splits)
qed (auto split: list.splits)

lemma search_from_blank:
  "needs_nonspace r \<Longrightarrow> \<forall>c \<in> set s. is_space c \<Longrightarrow> search_from r p s = None"
  by (induction s arbitrary: p) (simp_all add: rx_match_blank)

lemma re_search_blank:
  "needs_nonspace r \<Longrightarrow> \<forall>c \<in> set s. is_space c \<Longrightarrow> re_search r s = None"
  by (simp add: re_search_def search_from_blank)

lemma digit_not_space: "is_digit c \<Longrightarrow> \<not> is_space c"
  by (auto simp: is_digit_def is_space_def)

lemma needs_nonspace_seqs:
  "\<exists>r \<in> set rs. needs_nonspace r \<Longrightarrow> needs_nonspace (seqs rs)"
  by (induction rs rule: seqs.induct) auto

lemma needs_email: "needs_nonspace email_rx"
  unfolding email_rx_def
  by (rule needs_nonspace_seqs) (simp add: lit_def is_space_def)

lemma needs_phone: "needs_nonspace phone_rx"
  unfolding phone_rx_def
  by (rule needs_nonspace_seqs) (simp add: digit_not_space)

lemma needs_years: "needs_nonspace years_experience_rx"
  unfolding years_experience_rx_def
  by (rule needs_nonspace_seqs) (simp add: digit_not_space)

lemma of_char_lower_char:
  "is_upper c \<Longrightarrow> (of_char (lower_char c) :: nat) = of_char c + 32"
  by (simp add: lower_char_def is_upper_def)

lemma is_space_lower_char [simp]: "is_space (lower_char c) = is_space c"
proof (cases "is_upper c")
  case True
  then have "\<not> is_space c" "\<not> is_space (lower_char c)"
    using of_char_lower_char[OF True] by (auto simp: is_space_def is_upper_def)
  then show ?thesis by simp
next
  case False
  then show ?thesis by (simp add: lower_char_def)
qed

lemma blank_lower: "\<forall>c \<in> set s. is_space c \<Longrightarrow> \<forall>c \<in> set (lower s). is_space c"
  by (simp add: lower_def)

lemma split_on_nonempty: "split_on P s \<noteq> []"
  by (induction s) (auto split: list.splits)

lemma split_on_pieces: "w \<in> set (split_on P s) \<Longrightarrow> set w \<subseteq> set s"
proof (induction s arbitrary: w)
  case Nil
  then show ?case by simp
next
  case (Cons c cs)
  show ?case
  proof (cases "P c")
    case True
    with Cons show ?thesis by auto
  next
    case False
    obtain v vs where sp: "split_on P cs = v # vs"
      using split_on_nonempty[of P cs] by (cases "split_on P cs") auto
    with False Cons.prems have "w = c # v \<or> w \<in> set vs" by auto
    then show ?thesis
    proof
      assume "w = c # v"
      moreover have "set v \<subseteq> set cs" using Cons.IH[of v] sp by simp
      ultimately show ?thesis by auto
    next
      assume "w \<in> set vs"
      then have "set w \<subseteq> set cs" using Cons.IH[of w] sp by simp
      then show ?thesis by auto
    qed
  qed
qed

lemma strip_blank: "\<forall>c \<in> set s. is_space c \<Longrightarrow> strip s = []"
proof -
  assume "\<forall>c \<in> set s. is_space c"
  then have d: "dropWhile is_space s = []" by simp
  show ?thesis unfolding strip_def d by simp
qed

lemma extract_name_blank:
  assumes "\<forall>c \<in> set t. is_space c"
  shows "extract_name nlp t = map_option snd (find person_entity (nlp t))"
proof -
  have "strip line = []" if "line \<in> set (split_on (\<lambda>c. c = NL) t)" for line
    using split_on_pieces[OF that] assms by (intro strip_blank) auto
  then have "filter (\<lambda>line. strip line \<noteq> []) (split_on (\<lambda>c. c = NL) t) = []"
    by (simp add: filter_empty_conv)
  then show ?thesis
    by (simp add: extract_name_def split: option.splits)
qed

lemma keyword_not_in_blank:
  assumes "\<forall>c \<in> set t. is_space c" and "k \<in> set education_keywords"
  shows "\<not> sublist k t"
proof
  assume "sublist k t"
  then have "set k \<subseteq> set t" by (rule set_mono_sublist)
  moreover have "CHR ''a'' \<in> set k"
    using assms(2) by (auto simp: education_keywords_def)
  ultimately have "is_space (CHR ''a'')" using assms(1) by blast
  then show False by (simp add: is_space_def)
qed

lemma education_loop_blank:
  "\<forall>c \<in> set t. is_space c \<Longrightarrow> \<forall>k \<in> set ks. \<not> sublist k t \<Longrightarrow> education_loop ks t = []"
  by (induction ks) auto

lemma extract_education_blank:
  assumes "\<forall>c \<in> set t. is_space c"
  shows "extract_education t = []"
  unfolding extract_education_def
  using blank_lower[OF assms] keyword_not_in_blank
  by (intro education_loop_blank) blast+

lemma extract_skills_blank:
  assumes "\<forall>c \<in> set t. is_space c" and "s \<in> set (extract_skills ks t)"
  shows "\<forall>c \<in> set s. is_space c"
proof -
  from assms(2) have "sublist (lower s) (lower t)"
    by (simp add: extract_skills_def)
  then have "set (lower s) \<subseteq> set (lower t)" by (rule set_mono_sublist)
  with blank_lower[OF assms(1)] have "\<forall>c \<in> set (lower s). is_space c" by blast
  then show ?thesis by (simp add: lower_def)
qed

text \<open>
  C2, as amended.  On an empty or blank text \<open>parse_resume_info\<close> does not fail: it returns a
  record with email and phone absent, experience and education empty, the raw text kept,
  only blank vocabulary entries as skills, and no name but one the recogniser reports.
\<close>

theorem blank_text_hollow_record:
  assumes "\<forall>ch \<in> set resume_text. is_space ch"
  shows "\<exists>c. parse_resume_info nlp known_skills resume_text = Inr c
           \<and> name c = map_option snd (find person_entity (nlp resume_text))
           \<and> email c = None \<and> phone c = None
           \<and> (\<forall>s \<in> set (skills c). \<forall>ch \<in> set s. is_space ch)
           \<and> experience c = [] \<and> education c = []
           \<and> raw_text c = resume_text"
proof -
  have "extract_email resume_text = None"
    by (simp add: extract_email_def re_search_blank[OF needs_email assms])
  moreover have "extract_phone resume_text = None"
    by (simp add: extract_phone_def re_search_blank[OF needs_phone assms])
  moreover have "extract_experience resume_text = []"
    by (simp add: extract_experience_def re_search_blank[OF needs_years blank_lower[OF assms]])
  moreover note extract_education_blank[OF assms] extract_name_blank[OF assms, of nlp]
  moreover have "\<forall>s \<in> set (extract_skills known_skills resume_text). \<forall>ch \<in> set s. is_space ch"
    using extract_skills_blank[OF assms] by blast
  ultimately show ?thesis
    by (simp add: parse_resume_info_def)
qed

theorem blank_text_hollow_record_witness:
  "parse_resume_info nlp_none (KNOWN_SKILLS vocab_file) blank_text = Inr (hollow blank_text)
   \<and> name (hollow blank_text) = None \<and> email (hollow blank_text) = None
   \<and> phone (hollow blank_text) = None \<and> skills (hollow blank_text) = []
   \<and> experience (hollow blank_text) = [] \<and> education (hollow blank_text) = []
   \<and> raw_text (hollow blank_text) = blank_text"
proof -
  have h: "\<forall>ch \<in> set blank_text. is_space ch"
    by (simp add: blank_text_def is_space_def NL_def)
  have v: "extract_skills (KNOWN_SKILLS vocab_file) blank_text = []"
    by code_simp
  from blank_text_hollow_record[OF h, of nlp_none "KNOWN_SKILLS vocab_file"]
  obtain c where c: "parse_resume_info nlp_none (KNOWN_SKILLS vocab_file) blank_text = Inr c"
    "name c = map_option snd (find person_entity (nlp_none blank_text))"
    "email c = None" "phone c = None" "experience c = []" "education c = []"
    "raw_text c = blank_text"
    by blast
  from c(1) have "skills c = []"
    by (auto simp: parse_resume_info_def v)
  with c have "c = hollow blank_text"
    by (simp add: hollow_def nlp_none_def)
  with c(1) show ?thesis by (simp add: hollow_def)
qed

text \<open>C2 as stated fails: on the empty text and on a blank text the result is a record, not
  \<open>EmptyInputError\<close>.\<close>

theorem empty_text_counterexample:
  "parse_resume_info nlp_none (KNOWN_SKILLS vocab_file) [] = Inr (hollow [])
   \<and> parse_resume_info nlp_none (KNOWN_SKILLS vocab_file) [] \<noteq> Inl EmptyInputError
   \<and> parse_resume_info nlp_none (KNOWN_SKILLS vocab_file) blank_text = Inr (hollow blank_text)
   \<and> parse_resume_info nlp_none (KNOWN_SKILLS vocab_file) blank_text \<noteq> Inl EmptyInputError"
proof -
  have 1: "parse_resume_info nlp_none (KNOWN_SKILLS vocab_file) [] = Inr (hollow [])"
    by code_simp
  have 2: "parse_resume_info nlp_none (KNOWN_SKILLS vocab_file) blank_text = Inr (hollow blank_text)"
    by code_simp
  show ?thesis unfolding 1 2 by simp
qed

lemma set_KNOWN_SKILLS: "set (KNOWN_SKILLS file) = set (load_common_skills file)"
  by (simp add: KNOWN_SKILLS_def)

text \<open>
  C9.  Every skill of the record that \<open>parse_resume_info\<close> returns is an entry of the
  vocabulary loaded by \<open>load_common_skills\<close>, and its lower-cased form occurs in the
  lower-cased raw text of the record, which is the input text.
\<close>

theorem skills_from_vocabulary_in_text:
  assumes "parse_resume_info nlp (KNOWN_SKILLS file) resume_text = Inr c"
  shows "raw_text c = resume_text
         \<and> (\<forall>skill \<in> set (skills c).
               skill \<in> set (load_common_skills file) \<and> sublist (lower skill) (lower (raw_text c)))"
  using assms by (auto simp: parse_resume_info_def extract_skills_def set_KNOWN_SKILLS)

theorem skills_from_vocabulary_in_text_witness:
  "parse_resume_info nlp_none (KNOWN_SKILLS vocab_file) resume_a = Inr parsed_a
   \<and> raw_text parsed_a = resume_a
   \<and> ''python'' \<in> set (skills parsed_a)
   \<and> ''python'' \<in> set (load_common_skills vocab_file)
   \<and> sublist (lower ''python'') (lower (raw_text parsed_a))
   \<and> ''go'' \<in> set (load_common_skills vocab_file) \<and> ''go'' \<notin> set (skills parsed_a)"
proof -
  have ev: "parse_resume_info nlp_none (KNOWN_SKILLS vocab_file) resume_a = Inr parsed_a"
    by code_simp
  have m: "''python'' \<in> set (skills parsed_a)" "''go'' \<notin> set (skills parsed_a)"
    by (simp_all add: parsed_a_def)
  have g: "''go'' \<in> set (load_common_skills vocab_file)"
    by code_simp
  from skills_from_vocabulary_in_text[OF ev] m(1)
  have "raw_text parsed_a = resume_a" "''python'' \<in> set (load_common_skills vocab_file)"
    "sublist (lower ''python'') (lower (raw_text parsed_a))"
    by blast+
  with ev m g show ?thesis by simp
qed

section \<open>Characters and pieces of text\<close>

lemma of_char_lower_char':
  "(of_char (lower_char c) :: nat) = (if is_upper c then of_char c + 32 else of_char c)"
  by (simp add: lower_char_def is_upper_def)

lemma of_char_upper_char:
  "(of_char (upper_char c) :: nat) = (if is_lower c then of_char c - 32 else of_char c)"
proof (cases "is_lower c")
  case True
  have "(of_char c :: nat) < 256" by simp
  then have "(of_char c :: nat) - 32 < 256" by arith
  then have "((of_char c :: nat) - 32) mod 256 = of_char c - 32" by (rule mod_less)
  with True show ?thesis by (simp add: upper_char_def)
next
  case False
  then show ?thesis by (simp add: upper_char_def)
qed

lemma lower_char_idem [simp]: "lower_char (lower_char c) = lower_char c"
proof -
  have "\<not> is_upper (lower_char c)"
    by (simp add: is_upper_def of_char_lower_char')
  then show ?thesis by (simp add: lower_char_def[of "lower_char c"])
qed

lemma lower_fixed: "(lower f = f) = (\<forall>c \<in> set f. lower_char c = c)"
  unfolding lower_def by (induction f) auto

lemma char_eq_of_char: "(c = d) = ((of_char c :: nat) = of_char d)"
  by auto

lemma ci_is_upper [simp]: "ci is_upper c = is_alpha c"
proof -
  let ?n = "of_char c :: nat"
  have "is_upper (lower_char c) = False"
    by (simp add: is_upper_def of_char_lower_char')
  moreover have "is_upper (upper_char c) = (is_lower c \<or> is_upper c)"
    unfolding is_upper_def[of "upper_char c"] of_char_upper_char
    by (simp add: is_upper_def is_lower_def) arith
  ultimately show ?thesis by (auto simp: ci_def is_alpha_def)
qed

lemma is_alpha_lower_char: "is_alpha (lower_char c) = is_alpha c"
  unfolding is_alpha_def is_upper_def[of "lower_char c"] is_lower_def[of "lower_char c"] of_char_lower_char'
  by (simp add: is_upper_def is_lower_def)

lemma is_space_lower_char' : "is_space (lower_char c) = is_space c"
  unfolding is_space_def[of "lower_char c"] of_char_lower_char'
  by (simp add: is_upper_def is_space_def)

lemma heading_char_eq: "heading_char c = (is_alpha c \<or> is_space c)"
proof -
  have "is_alpha (upper_char c) \<or> is_space (upper_char c) \<Longrightarrow> is_alpha c \<or> is_space c"
    unfolding is_alpha_def is_upper_def[of "upper_char c"] is_lower_def[of "upper_char c"]
      is_space_def[of "upper_char c"] of_char_upper_char
    by (simp add: is_upper_def is_lower_def is_space_def split: if_splits)
  then show ?thesis
    by (auto simp: heading_char_def ci_def is_alpha_lower_char is_space_lower_char')
qed

lemma colon_not_cased: "\<not> is_upper (CHR '':'')" "\<not> is_lower (CHR '':'')"
  by (simp_all add: is_upper_def is_lower_def)

lemma ci_colon [simp]: "ci (\<lambda>c. c = CHR '':'') c = (c = CHR '':'')"
proof -
  have "lower_char c = CHR '':'' \<Longrightarrow> c = CHR '':''"
    by (cases "is_upper c")
       (auto simp: char_eq_of_char[of _ "CHR '':''"] of_char_lower_char' is_upper_def)
  moreover have "upper_char c = CHR '':'' \<Longrightarrow> c = CHR '':''"
    by (cases "is_lower c")
       (auto simp: char_eq_of_char[of _ "CHR '':''"] of_char_upper_char is_lower_def)
  moreover have "lower_char (CHR '':'') = CHR '':''" "upper_char (CHR '':'') = CHR '':''"
    by (simp_all add: lower_char_def upper_char_def colon_not_cased)
  ultimately show ?thesis by (auto simp: ci_def)
qed

lemma set_replace_subset: "set (replace old [] s) \<subseteq> set s"
proof (induction old "[] :: string" s rule: replace.induct)
  case (1 old s)
  show ?case
  proof (cases "old = []")
    case True
    then show ?thesis by (subst replace.simps) auto
  next
    case False
    note ne = this
    show ?thesis
    proof (cases "s = []")
      case True
      with ne show ?thesis by (subst replace.simps) simp
    next
      case False
      note sne = this
      show ?thesis
      proof (cases "prefix old s")
        case True
        have "set (replace old [] (drop (length old) s)) \<subseteq> set (drop (length old) s)"
          using 1(1)[OF ne sne True] .
        also have "\<dots> \<subseteq> set s" by (rule set_drop_subset)
        finally show ?thesis using ne sne True by (subst replace.simps) simp
      next
        case False
        have "set (replace old [] (tl s)) \<subseteq> set (tl s)"
          using 1(2)[OF ne sne False] .
        then show ?thesis using ne sne False
          by (subst replace.simps) (cases s; auto)
      qed
    qed
  qed
qed

lemma replace_single: "replace [x] [] s = filter (\<lambda>c. c \<noteq> x) s"
proof (induction s)
  case Nil
  then show ?case by (subst replace.simps) simp
next
  case (Cons c cs)
  then show ?case by (subst replace.simps) (auto)
qed

lemma set_strip_subset: "set (strip s) \<subseteq> set s"
proof -
  have "set (strip s) \<subseteq> set (dropWhile is_space s)"
    unfolding strip_def using set_dropWhileD[of _ is_space "rev (dropWhile is_space s)"] by auto
  also have "\<dots> \<subseteq> set s" using set_dropWhileD by fastforce
  finally show ?thesis .
qed

section \<open>The mined fragments are pieces of the lower-cased text\<close>

lemma fragments_subset: "f \<in> set (fragments t) \<Longrightarrow> set f \<subseteq> set t"
proof -
  assume "f \<in> set (fragments t)"
  then obtain w where w: "w \<in> set (split_on is_separator t)" and f: "f = strip w"
    by (auto simp: fragments_def)
  have "set f \<subseteq> set w" unfolding f by (rule set_strip_subset)
  also have "\<dots> \<subseteq> set t" using w by (rule split_on_pieces)
  finally show ?thesis .
qed

lemma strip_bullets_subset: "set (strip_bullets t) \<subseteq> set t"
proof -
  have "set (strip_bullets t) \<subseteq> set (replace bullet [] (replace ''-'' [] (replace ''*'' [] t)))"
    unfolding strip_bullets_def by (rule set_strip_subset)
  also have "\<dots> \<subseteq> set (replace ''-'' [] (replace ''*'' [] t))" by (rule set_replace_subset)
  also have "\<dots> \<subseteq> set (replace ''*'' [] t)" by (rule set_replace_subset)
  also have "\<dots> \<subseteq> set t" by (rule set_replace_subset)
  finally show ?thesis .
qed

lemma search_from_inv:
  "search_from r p s = Some (s0, (p', s', g')) \<Longrightarrow>
     suffix s0 s \<and> suffix s' s0 \<and> (\<forall>n w. (n, w) \<in> set g' \<longrightarrow> sublist w s)"
proof (induction s arbitrary: p)
  case Nil
  then have "(p', s', g') \<in> set (rx_match r (p, [], []))" and "s0 = []"
    by (auto split: list.splits)
  with rx_match_inv[of p' s' g' r p "[]" "[]"] show ?case by auto
next
  case (Cons c cs)
  show ?case
  proof (cases "rx_match r (p, c # cs, [])")
    case Nil
    with Cons.prems have "search_from r (Some c) cs = Some (s0, (p', s', g'))" by simp
    from Cons.IH[OF this] show ?thesis
      by (auto simp: suffix_Cons intro: sublist_of_suffix[where ?s1.0 = cs])
  next
    case (Cons st sts)
    with Cons.prems have "st = (p', s', g')" and s0: "s0 = c # cs" by auto
    with Cons have "(p', s', g') \<in> set (rx_match r (p, c # cs, []))" by simp
    from rx_match_inv[OF this] s0 show ?thesis by auto
  qed
qed

lemma group_sublist:
  assumes "re_search r s = Some m"
  shows "sublist (group m n) s"
proof (cases "map_of (snd m) n")
  case None
  then show ?thesis by (simp add: group_def)
next
  case (Some w)
  from assms obtain s0 p' s' g' where sf: "search_from r None s = Some (s0, (p', s', g'))"
    and m: "snd m = g'"
    by (auto simp: re_search_def split: option.splits)
  from Some m have "(n, w) \<in> set g'" by (auto dest: map_of_SomeD)
  with search_from_inv[OF sf] have "sublist w s" by blast
  with Some show ?thesis by (simp add: group_def)
qed

lemma section_capture_sublist: "section_capture h t = Some cap \<Longrightarrow> sublist cap t"
  by (auto simp: section_capture_def split: option.splits dest: group_sublist)

lemma mine_section_subset:
  assumes "f \<in> set (mine_section h t)"
  shows "set f \<subseteq> set t"
proof -
  from assms obtain cap where cap: "section_capture h t = Some cap"
    and f: "f \<in> set (fragments (strip_bullets cap))"
    by (cases "section_capture h t") (auto simp: mine_section_def)
  have "set f \<subseteq> set (strip_bullets cap)" using f by (rule fragments_subset)
  also have "\<dots> \<subseteq> set cap" by (rule strip_bullets_subset)
  also have "\<dots> \<subseteq> set t" using section_capture_sublist[OF cap] by (rule set_mono_sublist)
  finally show ?thesis .
qed

lemma mine_section_lower:
  assumes "f \<in> set (mine_section h (lower jd))"
  shows "lower f = f"
proof -
  have "set f \<subseteq> set (lower jd)" using assms by (rule mine_section_subset)
  then have "\<forall>c \<in> set f. lower_char c = c"
    by (auto simp: lower_def)
  then show ?thesis by (simp add: lower_fixed)
qed

text \<open>
  C10.  Every fragment of the mined requirements (skills, responsibilities, education terms)
  equals its own lower-casing: the miner searches and captures in the lower-cased text, so
  the casing of the job description is not kept.
\<close>

theorem mined_fragments_lowercase:
  "\<forall>f \<in> set (req_skills (extract_jd_requirements jd))
        \<union> set (req_responsibilities (extract_jd_requirements jd))
        \<union> set (req_education (extract_jd_requirements jd)). lower f = f"
  by (auto simp: extract_jd_requirements_def Let_def dest: mine_section_lower)

theorem mined_fragments_lowercase_witness:
  "req_skills (extract_jd_requirements jd_text_a) = [''sql'', ''aws'', ''go 7 years exp'']
   \<and> lower ''sql'' = ''sql'' \<and> lower ''aws'' = ''aws''
   \<and> lower ''go 7 years exp'' = ''go 7 years exp''
   \<and> ''SQL'' \<notin> set (req_skills (extract_jd_requirements jd_text_a))"
  using mined_fragments_lowercase[of jd_text_a] unfolding extract_jd_text_a by simp

section \<open>What the section patterns match\<close>

lemma section_rx_split: "section_rx header = Seq header section_tail_rx"
  by (simp add: section_rx_def section_tail_rx_def section_end_rx_def)

lemma runs_nonempty [simp]: "runs P st \<noteq> []"
  by (cases st, cases "fst (snd st)") auto

lemma runs_last: "\<exists>p'. last (runs P (p, s, g)) = (p', dropWhile P s, g)"
  by (induction s arbitrary: p) auto

lemma hd_concat_map:
  "xs \<noteq> [] \<Longrightarrow> f (hd xs) \<noteq> [] \<Longrightarrow>
     concat (map f xs) \<noteq> [] \<and> hd (concat (map f xs)) = hd (f (hd xs))"
  by (cases xs) auto

lemma no_group_keeps:
  "\<not> has_group r \<Longrightarrow> (p', s', g') \<in> set (rx_match r (p, s, g)) \<Longrightarrow> g' = g"
proof (induction r arbitrary: p s g p' s' g')
  case (Seq a b)
  from Seq.prems obtain p1 s1 g1 where
    1: "(p1, s1, g1) \<in> set (rx_match a (p, s, g))" and 2: "(p', s', g') \<in> set (rx_match b (p1, s1, g1))"
    by auto
  from Seq.prems(1) have "\<not> has_group a" "\<not> has_group b" by simp_all
  with Seq.IH(1)[OF _ 1] Seq.IH(2)[OF _ 2] show ?case by simp
next
  case (Alt a b)
  then show ?case by auto
next
  case (Opt a)
  then show ?case by auto
next
  case (Rep P lo hi)
  then have "(p', s', g') \<in> set (runs P (p, s, g))"
    by (auto split: option.splits dest: in_set_dropD in_set_takeD)
  from runs_suffix[OF this] show ?case by simp
next
  case (LazyStar P)
  then have "(p', s', g') \<in> set (runs P (p, s, g))" by simp
  from runs_suffix[OF this] show ?case by simp
qed (auto split: list.splits if_splits)

lemma chr_ok_simps [simp]:
  "chr_ok Q (p, [], g) = False"
  "chr_ok Q (p, c # cs, g) = Q c"
  by (simp_all add: chr_ok_def)

lemma runs_then_chr:
  assumes "\<And>c. Q c \<Longrightarrow> \<not> P c"
  shows "list_ex (chr_ok Q) (runs P (p, s, g))
         = (case dropWhile P s of [] \<Rightarrow> False | d # _ \<Rightarrow> Q d)"
proof (induction s arbitrary: p)
  case Nil
  then show ?case by simp
next
  case (Cons c cs)
  show ?case
  proof (cases "P c")
    case True
    then have "\<not> Q c" using assms by blast
    with True Cons show ?thesis by simp
  next
    case False
    then show ?thesis by simp
  qed
qed

lemma drop1_runs:
  "drop 1 (runs P (p, s, g)) = (case s of [] \<Rightarrow> [] | x # rest \<Rightarrow> if P x then runs P (Some x, rest, g) else [])"
  by (cases s) auto

lemma concat_map_nonempty: "(concat (map f xs) \<noteq> []) = list_ex (\<lambda>x. f x \<noteq> []) xs"
  by (induction xs) auto

lemma plus_then_chr:
  assumes "\<And>c. Q c \<Longrightarrow> \<not> P c"
  shows "(rx_match (Seq (plus P) (Chr Q)) (p, s, g) \<noteq> [])
         = (case s of [] \<Rightarrow> False
            | x # rest \<Rightarrow> P x \<and> (case dropWhile P rest of [] \<Rightarrow> False | d # _ \<Rightarrow> Q d))"
proof -
  have "(rx_match (Seq (plus P) (Chr Q)) (p, s, g) \<noteq> [])
        = list_ex (chr_ok Q) (drop 1 (runs P (p, s, g)))"
    unfolding rx_match.simps(3) concat_map_nonempty
    by (simp add: chr_ok_def[abs_def] list_ex_iff del: rx_match.simps(2))
  also have "\<dots> = (case s of [] \<Rightarrow> False
            | x # rest \<Rightarrow> P x \<and> (case dropWhile P rest of [] \<Rightarrow> False | d # _ \<Rightarrow> Q d))"
    unfolding drop1_runs using runs_then_chr[of Q P, OF assms]
    by (cases s) simp_all
  finally show ?thesis .
qed

lemma nlnl_match:
  "(rx_match (lit [NL, NL]) (p, s, g) \<noteq> []) = (take 2 s = [NL, NL])"
  by (cases s; cases "tl s") (auto simp: lit_def)

lemma heading_match:
  "(rx_match (seqs [lit [NL], Chr (ci is_upper), plus (ci (\<lambda>c. is_alpha c \<or> is_space c)), liti '':''])
      (p, s, g) \<noteq> []) = heading_at s"
proof -
  have hc: "ci (\<lambda>c. is_alpha c \<or> is_space c) = heading_char"
    by (rule ext) (simp add: heading_char_def)
  have ne: "\<And>c. ci (\<lambda>c. c = CHR '':'') c \<Longrightarrow> \<not> heading_char c"
    by (simp add: heading_char_eq is_alpha_def is_upper_def is_lower_def is_space_def)
  note pt = plus_then_chr[of "ci (\<lambda>c. c = CHR '':'')" heading_char, OF ne]
  show ?thesis
  proof (cases s)
    case Nil
    then show ?thesis by (simp add: heading_at_def lit_def)
  next
    case (Cons n s1)
    note s = this
    show ?thesis
    proof (cases s1)
      case Nil
      with s show ?thesis by (simp add: heading_at_def lit_def)
    next
      case (Cons c s2)
      have m: "rx_match (seqs [lit [NL], Chr (ci is_upper), plus heading_char, liti '':'']) (p, s, g)
            = (if n = NL \<and> ci is_upper c
               then rx_match (Seq (plus heading_char) (Chr (ci (\<lambda>c. c = CHR '':'')))) (Some c, s2, g)
               else [])"
        unfolding s Cons lit_def liti_def
        by (simp del: rx_match.simps(3,6) ci_is_upper ci_colon
            add: rx_match.simps(3)[of "Chr _" ] )
      have "(rx_match (seqs [lit [NL], Chr (ci is_upper), plus heading_char, liti '':'']) (p, s, g) \<noteq> [])
            = (n = NL \<and> ci is_upper c
               \<and> rx_match (Seq (plus heading_char) (Chr (ci (\<lambda>c. c = CHR '':'')))) (Some c, s2, g) \<noteq> [])"
        unfolding m by (auto simp del: rx_match.simps ci_is_upper)
      also have "\<dots> = (n = NL \<and> ci is_upper c \<and> (case s2 of [] \<Rightarrow> False
            | x # rest \<Rightarrow> heading_char x \<and> (case dropWhile heading_char rest of [] \<Rightarrow> False | d # _ \<Rightarrow> ci (\<lambda>c. c = CHR '':'') d)))"
        using pt[of "Some c" s2 g] by (simp del: rx_match.simps ci_colon ci_is_upper)
      also have "\<dots> = heading_at s"
        unfolding s Cons by (cases s2) (simp_all add: heading_at_def cong: list.case_cong)
      finally show ?thesis unfolding hc .
    qed
  qed
qed

lemma section_end_match:
  "(rx_match section_end_rx (p, s, g) \<noteq> []) = terminator_at s"
proof -
  have "(rx_match section_end_rx (p, s, g) \<noteq> [])
        = (rx_match (lit [NL, NL]) (p, s, g) \<noteq> []
           \<or> rx_match (seqs [lit [NL], Chr (ci is_upper), plus (ci (\<lambda>c. is_alpha c \<or> is_space c)), liti '':''])
                (p, s, g) \<noteq> []
           \<or> s = [])"
    unfolding section_end_rx_def by (simp del: seqs.simps)
  then show ?thesis
    unfolding nlnl_match heading_match terminator_at_def .
qed

lemma section_end_groups:
  "(p', s', g') \<in> set (rx_match section_end_rx (p, s, g)) \<Longrightarrow> g' = g"
proof -
  have ng: "\<not> has_group section_end_rx"
    by (simp add: section_end_rx_def lit_def liti_def)
  assume "(p', s', g') \<in> set (rx_match section_end_rx (p, s, g))"
  with ng show ?thesis by (rule no_group_keeps)
qed

lemma lazy_capture:
  "\<exists>p' s'.
     concat (map (rx_match section_end_rx)
       (map (\<lambda>(p', s', g'). (p', s', (Suc 0, take (length (pre @ s) - length s') (pre @ s)) # g'))
         (runs any_char (p, s, g)))) \<noteq> []
     \<and> hd (concat (map (rx_match section_end_rx)
       (map (\<lambda>(p', s', g'). (p', s', (Suc 0, take (length (pre @ s) - length s') (pre @ s)) # g'))
         (runs any_char (p, s, g)))))
       = (p', s', (Suc 0, pre @ capture_upto s) # g)"
proof (induction s arbitrary: p pre)
  case Nil
  let ?st = "(p, [] :: string, (Suc 0, pre) # g)"
  have ne: "rx_match section_end_rx ?st \<noteq> []"
    unfolding section_end_match by (simp add: terminator_at_def)
  then obtain p' s' g' where h: "hd (rx_match section_end_rx ?st) = (p', s', g')"
    by (cases "hd (rx_match section_end_rx ?st)") auto
  with ne have "(p', s', g') \<in> set (rx_match section_end_rx ?st)"
    by (metis hd_in_set)
  then have "g' = (Suc 0, pre) # g" by (rule section_end_groups)
  with ne h show ?case by (simp del: rx_match.simps)
next
  case (Cons c cs)
  let ?st = "(p, c # cs, (Suc 0, pre) # g)"
  let ?F = "\<lambda>pre s. (\<lambda>(p', s', g'). (p', s', (Suc 0, take (length (pre @ s) - length s') (pre @ s)) # g'))"
  have split: "map (?F pre (c # cs)) (runs any_char (p, c # cs, g))
      = ?st # map (?F (pre @ [c]) cs) (runs any_char (Some c, cs, g))"
    by (simp add: any_char_def)
  show ?case
  proof (cases "terminator_at (c # cs)")
    case True
    then have ne: "rx_match section_end_rx ?st \<noteq> []"
      unfolding section_end_match .
    then obtain p' s' g' where h: "hd (rx_match section_end_rx ?st) = (p', s', g')"
      by (cases "hd (rx_match section_end_rx ?st)") auto
    with ne have "(p', s', g') \<in> set (rx_match section_end_rx ?st)"
      by (metis hd_in_set)
    then have "g' = (Suc 0, pre) # g" by (rule section_end_groups)
    with ne h True show ?thesis
      unfolding split by (simp del: rx_match.simps)
  next
    case False
    then have e: "rx_match section_end_rx ?st = []"
      using section_end_match[of p "c # cs" "(Suc 0, pre) # g"] by blast
    from Cons.IH[of "pre @ [c]" "Some c"] False show ?thesis
      unfolding split by (simp add: e del: rx_match.simps)
  qed
qed

lemma capture_match:
  "\<exists>p' s'. rx_match (Seq (Grp 1 (LazyStar any_char)) section_end_rx) (p, s, g) \<noteq> []
     \<and> hd (rx_match (Seq (Grp 1 (LazyStar any_char)) section_end_rx) (p, s, g))
         = (p', s', (1, capture_upto s) # g)"
proof -
  have m: "rx_match (Seq (Grp (Suc 0) (LazyStar any_char)) section_end_rx) (p, s, g)
      = concat (map (rx_match section_end_rx)
         (map (\<lambda>(p', s', g'). (p', s', (Suc 0, take (length ([] @ s) - length s') ([] @ s)) # g'))
           (runs any_char (p, s, g))))"
    by (simp del: rx_match.simps(3) add: rx_match.simps(3)[of "Grp _ _"])
  have c: "[] @ capture_upto s = capture_upto s" by simp
  show ?thesis
    unfolding One_nat_def m using lazy_capture[of "[]" s p g] unfolding c by blast
qed

lemma star_capture_match:
  "\<exists>p' s'. rx_match (Seq (star is_space) (Seq (Grp 1 (LazyStar any_char)) section_end_rx)) (p, s, g) \<noteq> []
     \<and> hd (rx_match (Seq (star is_space) (Seq (Grp 1 (LazyStar any_char)) section_end_rx)) (p, s, g))
         = (p', s', (1, capture_upto (dropWhile is_space s)) # g)"
proof -
  let ?K = "Seq (Grp 1 (LazyStar any_char)) section_end_rx"
  obtain p1 where l: "last (runs is_space (p, s, g)) = (p1, dropWhile is_space s, g)"
    using runs_last by blast
  have m: "rx_match (Seq (star is_space) ?K) (p, s, g)
           = concat (map (rx_match ?K) (rev (runs is_space (p, s, g))))"
    by (simp del: rx_match.simps(3) add: rx_match.simps(3)[of "star is_space"])
  have h: "hd (rev (runs is_space (p, s, g))) = (p1, dropWhile is_space s, g)"
    using l by (simp add: hd_rev)
  from capture_match[of p1 "dropWhile is_space s" g] obtain p' s' where
    k: "rx_match ?K (p1, dropWhile is_space s, g) \<noteq> []"
       "hd (rx_match ?K (p1, dropWhile is_space s, g)) = (p', s', (1, capture_upto (dropWhile is_space s)) # g)"
    by blast
  have "rev (runs is_space (p, s, g)) \<noteq> []" by simp
  from hd_concat_map[of "rev (runs is_space (p, s, g))" "rx_match ?K", OF this] k h
  show ?thesis unfolding m by (simp del: rx_match.simps)
qed

lemma tail_match:
  "\<exists>p' s'. rx_match section_tail_rx (p, s, g) \<noteq> []
     \<and> hd (rx_match section_tail_rx (p, s, g)) = (p', s', (1, capture_upto (section_body s)) # g)"
proof -
  let ?K = "Seq (star is_space) (Seq (Grp 1 (LazyStar any_char)) section_end_rx)"
  let ?s1 = "case s of [] \<Rightarrow> [] | c # cs \<Rightarrow> if c = CHR '':'' then cs else c # cs"
  have t: "section_tail_rx = Seq (Opt (Chr (ci (\<lambda>c. c = CHR '':'')))) ?K"
    by (simp add: section_tail_rx_def liti_def)
  have "\<exists>p1. hd (rx_match (Opt (Chr (ci (\<lambda>c. c = CHR '':'')))) (p, s, g)) = (p1, ?s1, g)"
    by (cases s) auto
  then obtain p1 where h: "hd (rx_match (Opt (Chr (ci (\<lambda>c. c = CHR '':'')))) (p, s, g)) = (p1, ?s1, g)"
    by blast
  have ne: "rx_match (Opt (Chr (ci (\<lambda>c. c = CHR '':'')))) (p, s, g) \<noteq> []"
    by simp
  from star_capture_match[of p1 ?s1 g] obtain p' s' where
    k: "rx_match ?K (p1, ?s1, g) \<noteq> []"
       "hd (rx_match ?K (p1, ?s1, g)) = (p', s', (1, capture_upto (dropWhile is_space ?s1)) # g)"
    by blast
  have m: "rx_match section_tail_rx (p, s, g)
        = concat (map (rx_match ?K) (rx_match (Opt (Chr (ci (\<lambda>c. c = CHR '':'')))) (p, s, g)))"
    unfolding t by (rule rx_match.simps(3))
  from hd_concat_map[of "rx_match (Opt (Chr (ci (\<lambda>c. c = CHR '':'')))) (p, s, g)" "rx_match ?K", OF ne] k h
  show ?thesis unfolding m section_body_def by (simp del: rx_match.simps)
qed

lemma search_from_Seq:
  assumes "\<And>st. rx_match b st \<noteq> []"
  shows "search_from (Seq a b) p s =
     (case search_from a p s of None \<Rightarrow> None | Some (s0, st1) \<Rightarrow> Some (s0, hd (rx_match b st1)))"
proof -
  have m: "rx_match (Seq a b) st = (case rx_match a st of [] \<Rightarrow> [] | x # xs \<Rightarrow> hd (rx_match b x) # tl (rx_match b x) @ concat (map (rx_match b) xs))" for st
    using assms by (auto split: list.splits)
  show ?thesis
    by (induction s arbitrary: p) (simp_all add: m split: list.splits del: rx_match.simps)
qed

lemma tail_total: "rx_match section_tail_rx st \<noteq> []"
  using tail_match[of "fst st" "fst (snd st)" "snd (snd st)"] by auto

text \<open>What a section pattern captures, exactly: after the leftmost match of the header,
  the shortest text of the section body after which the pattern's end matches.\<close>

lemma section_capture_eq:
  "section_capture header t =
     (case search_from header None t of
        None \<Rightarrow> None
      | Some (s0, (p, s, g)) \<Rightarrow> Some (capture_upto (section_body s)))"
proof (cases "search_from header None t")
  case None
  then show ?thesis
    by (simp add: section_capture_def re_search_def section_rx_split search_from_Seq[OF tail_total])
next
  case (Some r)
  obtain s0 p s g where r: "r = (s0, (p, s, g))" by (cases r) auto
  from tail_match[of p s g] obtain p' s' where
    h: "hd (rx_match section_tail_rx (p, s, g)) = (p', s', (1, capture_upto (section_body s)) # g)"
    by blast
  show ?thesis
    using Some r h
    by (simp add: section_capture_def re_search_def section_rx_split search_from_Seq[OF tail_total]
        group_def)
qed

section \<open>The fragments of a section\<close>

lemma strip_idem: "strip (strip s) = strip s"
proof -
  let ?a = "dropWhile is_space s"
  let ?b = "rev (dropWhile is_space (rev ?a))"
  have pre: "?a = ?b @ rev (takeWhile is_space (rev ?a))"
    using takeWhile_dropWhile_id[of is_space "rev ?a"]
    by (metis rev_append rev_rev_ident)
  have 1: "dropWhile is_space ?b = ?b"
  proof (cases "?b = []")
    case True
    show ?thesis by (simp only: True dropWhile.simps(1))
  next
    case False
    have "?b = []" if a: "?a = []"
      unfolding a by simp
    with False have "?a \<noteq> []" by blast
    then have "\<not> is_space (hd ?a)" by (rule hd_dropWhile)
    moreover have "hd ?a = hd ?b" using pre False by (metis hd_append2)
    ultimately show ?thesis using False by (simp add: dropWhile_eq_self_iff)
  qed
  have 2: "dropWhile is_space (rev ?b) = rev ?b"
    by (simp add: dropWhile_idem)
  show ?thesis
    unfolding strip_def[of "strip s"] unfolding strip_def[of s] 1 2 by simp
qed

lemma split_on_no_sep: "w \<in> set (split_on P s) \<Longrightarrow> \<forall>c \<in> set w. \<not> P c"
proof (induction s arbitrary: w)
  case Nil
  then show ?case by simp
next
  case (Cons c cs)
  show ?case
  proof (cases "P c")
    case True
    with Cons show ?thesis by auto
  next
    case False
    obtain v vs where sp: "split_on P cs = v # vs"
      using split_on_nonempty[of P cs] by (cases "split_on P cs") auto
    with False Cons.prems have "w = c # v \<or> w \<in> set vs" by auto
    then show ?thesis
    proof
      assume "w = c # v"
      moreover have "\<forall>c \<in> set v. \<not> P c" using Cons.IH[of v] sp by simp
      ultimately show ?thesis using False by auto
    next
      assume "w \<in> set vs"
      then show ?thesis using Cons.IH[of w] sp by simp
    qed
  qed
qed

lemma strip_bullets_chars:
  "c \<in> set (strip_bullets t) \<Longrightarrow> c \<noteq> CHR ''*'' \<and> c \<noteq> CHR ''-''"
proof -
  assume "c \<in> set (strip_bullets t)"
  then have "c \<in> set (replace bullet [] (replace ''-'' [] (replace ''*'' [] t)))"
    unfolding strip_bullets_def using set_strip_subset by blast
  then have "c \<in> set (replace ''-'' [] (replace ''*'' [] t))"
    using set_replace_subset by blast
  then show ?thesis by (simp add: replace_single)
qed

lemma fragments_props:
  assumes "f \<in> set (fragments u)"
  shows "f \<noteq> [] \<and> strip f = f \<and> (\<forall>c \<in> set f. \<not> is_separator c \<and> c \<in> set u)"
proof -
  from assms obtain w where w: "w \<in> set (split_on is_separator u)" and f: "f = strip w"
    and ne: "strip w \<noteq> []"
    by (auto simp: fragments_def)
  have "set f \<subseteq> set w" unfolding f by (rule set_strip_subset)
  with split_on_no_sep[OF w] split_on_pieces[OF w] have "\<forall>c \<in> set f. \<not> is_separator c \<and> c \<in> set u"
    by blast
  with f ne show ?thesis by (simp add: strip_idem)
qed

text \<open>With the vocabulary that \<open>load_common_skills\<close> reads, a blank text can only contain
  the empty phrase.\<close>

lemma blank_text_skills_empty_phrase:
  assumes "\<forall>ch \<in> set resume_text. is_space ch"
    and "s \<in> set (extract_skills (KNOWN_SKILLS file) resume_text)"
  shows "s = []"
proof -
  from assms(2) have "s \<in> set (load_common_skills file)"
    by (simp add: extract_skills_def set_KNOWN_SKILLS)
  then obtain line where s: "s = lower (strip line)"
    by (auto simp: load_common_skills_def split: option.splits)
  from extract_skills_blank[OF assms] have "\<forall>c \<in> set (strip line). is_space c"
    unfolding s by (simp add: lower_def)
  then have "strip (strip line) = []" by (rule strip_blank)
  then have "strip line = []" by (simp only: strip_idem)
  with s show ?thesis by (simp add: lower_def)
qed

lemma mine_section_props:
  assumes "f \<in> set (mine_section header t)"
  shows "f \<noteq> [] \<and> strip f = f
         \<and> (\<forall>c \<in> set f. \<not> is_separator c \<and> c \<noteq> CHR ''*'' \<and> c \<noteq> CHR ''-'')"
proof -
  from assms obtain cap where "f \<in> set (fragments (strip_bullets cap))"
    by (cases "section_capture header t") (auto simp: mine_section_def)
  from fragments_props[OF this] show ?thesis
    using strip_bullets_chars by blast
qed

section \<open>Evaluating the section capture\<close>

lemma heading_at_code [code]:
  "heading_at s =
     (case s of
        n # c # x # rest \<Rightarrow>
          if n = NL then
            if is_alpha c then
              if is_alpha x \<or> is_space x then
                (case dropWhile (\<lambda>c. is_alpha c \<or> is_space c) rest of [] \<Rightarrow> False | d # _ \<Rightarrow> d = CHR '':'')
              else False
            else False
          else False
      | _ \<Rightarrow> False)"
proof -
  have hc: "heading_char = (\<lambda>c. is_alpha c \<or> is_space c)"
    by (rule ext) (rule heading_char_eq)
  show ?thesis
    unfolding heading_at_def hc by (auto split: list.splits)
qed

lemma terminator_at_code [code]:
  "terminator_at s =
     (case s of
        [] \<Rightarrow> True
      | n # rest \<Rightarrow> if n = NL then (case rest of m # _ \<Rightarrow> if m = NL then True else heading_at s | [] \<Rightarrow> False) else False)"
  by (auto simp: terminator_at_def heading_at_def split: list.splits)

lemma title_heading_at_code [code]:
  "title_heading_at s =
     (case s of
        n # c # rest \<Rightarrow>
          if n = NL then
            if is_upper c then
              (case dropWhile inline_char rest of [] \<Rightarrow> False | d # _ \<Rightarrow> d = CHR '':'')
            else False
          else False
      | _ \<Rightarrow> False)"
  unfolding title_heading_at_def by (auto split: list.splits)

lemma spec_end_at_code [code]:
  "spec_end_at s =
     (case s of
        [] \<Rightarrow> True
      | n # rest \<Rightarrow> if n = NL then (case rest of m # _ \<Rightarrow> if m = NL then True else title_heading_at s | [] \<Rightarrow> False) else False)"
  by (auto simp: spec_end_at_def title_heading_at_def split: list.splits)

lemma mine_section_eq:
  "mine_section header t =
     (case search_from header None t of
        None \<Rightarrow> []
      | Some (s0, (p, s, g)) \<Rightarrow> fragments (strip_bullets (capture_upto (section_body s))))"
  by (simp add: mine_section_def section_capture_eq split: option.splits)

lemma req_skills_eq: "req_skills (extract_jd_requirements jd) = mine_section skills_header (lower jd)"
  by (simp add: extract_jd_requirements_def Let_def)

lemma fragments_python: "fragments (strip_bullets ''python'') = [''python'']"
  by code_simp

text \<open>
  C3.  The claim: for each of the three categories the captured section text runs from the
  matched header synonym up to the first of the next blank line, the next title-cased
  heading line and the end of the text, and is then cleaned of bullets and split into
  trimmed, non-empty fragments.  The program does not capture that far.  In
  \<^verbatim>\<open>\n[A-Z][a-zA-Z\s]+:\<close> the class \<^verbatim>\<open>\s\<close> matches line breaks too, so the
  "heading" may begin at any earlier line that starts with a letter.  In the first text
  below the skills run up to the heading line \<open>Education:\<close>, in the second up to the blank
  line; in both the program captures the first line only and loses \<open>java\<close>.
\<close>

theorem section_capture_stops_early:
  "section_capture skills_header (lower jd_text_b) = Some ''python''
   \<and> req_skills (extract_jd_requirements jd_text_b) = [''python'']
   \<and> spec_mine_section skills_header jd_text_b = [''python'', ''java'']
   \<and> section_capture skills_header (lower jd_text_d) = Some ''python''
   \<and> req_skills (extract_jd_requirements jd_text_d) = [''python'']
   \<and> spec_mine_section skills_header jd_text_d = [''python'', ''java'']"
proof -
  have s1: "search_from skills_header None (lower jd_text_b)
      = Some (lower jd_text_b, (Some (CHR ''s''), drop 6 (lower jd_text_b), []))"
    by code_simp
  have c1: "capture_upto (section_body (drop 6 (lower jd_text_b))) = ''python''"
    by code_simp
  have 0: "section_capture skills_header (lower jd_text_b) = Some ''python''"
    unfolding section_capture_eq
    by (simp only: s1 c1 option.case prod.case)
  have 1: "req_skills (extract_jd_requirements jd_text_b) = [''python'']"
    unfolding req_skills_eq mine_section_eq
    by (simp only: s1 c1 fragments_python option.case prod.case)
  have s2: "search_from skills_header None jd_text_b
      = Some (jd_text_b, (Some (CHR ''s''), drop 6 jd_text_b, []))"
    by code_simp
  have c2: "spec_section_text (section_body (drop 6 jd_text_b)) = ''Python'' @ [NL] @ ''Java''"
    by code_simp
  have f2: "fragments (strip_bullets (lower (''Python'' @ [NL] @ ''Java''))) = [''python'', ''java'']"
    by code_simp
  have 2: "spec_mine_section skills_header jd_text_b = [''python'', ''java'']"
    unfolding spec_mine_section_def
    by (simp only: s2 c2 f2 option.case prod.case)
  have s3: "search_from skills_header None (lower jd_text_d)
      = Some (lower jd_text_d, (Some (CHR ''s''), drop 6 (lower jd_text_d), []))"
    by code_simp
  have c3: "capture_upto (section_body (drop 6 (lower jd_text_d))) = ''python''"
    by code_simp
  have 3: "section_capture skills_header (lower jd_text_d) = Some ''python''"
    unfolding section_capture_eq
    by (simp only: s3 c3 option.case prod.case)
  have 4: "req_skills (extract_jd_requirements jd_text_d) = [''python'']"
    unfolding req_skills_eq mine_section_eq
    by (simp only: s3 c3 fragments_python option.case prod.case)
  have s5: "search_from skills_header None jd_text_d
      = Some (jd_text_d, (Some (CHR ''s''), drop 6 jd_text_d, []))"
    by code_simp
  have c5: "spec_section_text (section_body (drop 6 jd_text_d)) = ''Python'' @ [NL] @ ''Java''"
    by code_simp
  have 5: "spec_mine_section skills_header jd_text_d = [''python'', ''java'']"
    unfolding spec_mine_section_def
    by (simp only: s5 c5 f2 option.case prod.case)
  from 0 1 2 3 4 5 show ?thesis by simp
qed

end
